theory Spec2Isabelle
  imports Main "HOL-Library.AList" "HOL-Library.Sublist"
begin

section \<open>Text\<close>

text \<open>
  A Python \<open>str\<close> is a sequence of Unicode code points and \<open>len\<close> counts code points,
  so a string is modelled as the list of its code points. ASCII literals of the source are
  written \<open>ascii ''...''\<close>; the Chinese literals are given code point by code point.
\<close>

type_synonym str = "nat list"

abbreviation ascii :: "string \<Rightarrow> str" where
  "ascii s \<equiv> map of_char s"

text \<open>
  \<open>str.strip()\<close> without arguments removes the characters Python counts as white space;
  the result is empty exactly when every character of the string is one of them.
\<close>

definition py_isspace :: "nat \<Rightarrow> bool" where
  "py_isspace c \<longleftrightarrow>
     (0x9 \<le> c \<and> c \<le> 0xD) \<or> (0x1C \<le> c \<and> c \<le> 0x20) \<or> c = 0x85 \<or> c = 0xA0 \<or>
     c = 0x1680 \<or> (0x2000 \<le> c \<and> c \<le> 0x200A) \<or> c = 0x2028 \<or> c = 0x2029 \<or>
     c = 0x202F \<or> c = 0x205F \<or> c = 0x3000"

definition strip :: "str \<Rightarrow> str" where
  "strip s = rev (dropWhile py_isspace (rev (dropWhile py_isspace s)))"

text \<open>\<open>sep.join(xs)\<close>.\<close>

fun join :: "str \<Rightarrow> str list \<Rightarrow> str" where
  "join sep [] = []"
| "join sep [x] = x"
| "join sep (x # y # ys) = x @ sep @ join sep (y # ys)"

section \<open>tools/memory\_tool.py\<close>

text \<open>
  The knowledge store \<open>memory_data\<close>: an optional \<open>user_id\<close> and the dictionary
  \<open>knowledge_levels\<close> from subject to an entry whose two keys may each be missing.
  A store without the key \<open>knowledge_levels\<close> (or the empty store of a missing file) is the
  one with the empty dictionary, as \<open>.get("knowledge_levels", {})\<close> reads it.
\<close>

record stored_level =
  level :: "str option"
  detailed_description :: "str option"

record memory_data =
  md_user_id :: "str option"
  md_knowledge_levels :: "str \<rightharpoonup> stored_level"

text \<open>One value of \<open>subjects_info\<close>: both keys are always written.\<close>

record subject_info =
  info_level :: str
  info_detailed_description :: str

record knowledge_result =
  user_id :: str
  subjects_info :: "(str \<times> subject_info) list"

definition UNKNOWN :: str where
  "UNKNOWN = ascii ''unknown''"

definition NOT_FOUND_PREFIX :: str where
  "NOT_FOUND_PREFIX = [0x672A, 0x627E, 0x5230, 0x5173, 0x4E8E, 0x20]"

definition NOT_FOUND_SUFFIX :: str where
  "NOT_FOUND_SUFFIX = [0x20, 0x7684, 0x77E5, 0x8BC6, 0x6C34, 0x5E73, 0x4FE1, 0x606F]"

text \<open>The value written for one subject (the body of the \<open>for\<close> loop, lines 45 to 54).\<close>

definition subject_entry :: "(str \<rightharpoonup> stored_level) \<Rightarrow> str \<Rightarrow> subject_info" where
  "subject_entry knowledge_levels subject =
     (case knowledge_levels subject of
        Some e \<Rightarrow>
          \<lparr>info_level = (case level e of Some l \<Rightarrow> l | None \<Rightarrow> UNKNOWN),
           info_detailed_description =
             (case detailed_description e of Some d \<Rightarrow> d | None \<Rightarrow> [])\<rparr>
      | None \<Rightarrow>
          \<lparr>info_level = UNKNOWN,
           info_detailed_description = NOT_FOUND_PREFIX @ subject @ NOT_FOUND_SUFFIX\<rparr>)"

text \<open>
  The loop over \<open>subjects\<close>. \<open>subjects_info\<close> is a Python dictionary, which keeps the
  order of first insertion and overwrites in place: \<open>AList.update\<close>.
\<close>

fun collect_subjects ::
  "(str \<rightharpoonup> stored_level) \<Rightarrow> str list \<Rightarrow> (str \<times> subject_info) list \<Rightarrow>
   (str \<times> subject_info) list" where
  "collect_subjects knowledge_levels [] info = info"
| "collect_subjects knowledge_levels (subject # subjects) info =
     collect_subjects knowledge_levels subjects
       (AList.update subject (subject_entry knowledge_levels subject) info)"

definition get_knowledge_level :: "memory_data \<Rightarrow> str list \<Rightarrow> knowledge_result" where
  "get_knowledge_level memory subjects =
     \<lparr>user_id = (case md_user_id memory of Some u \<Rightarrow> u | None \<Rightarrow> UNKNOWN),
      subjects_info = collect_subjects (md_knowledge_levels memory) subjects []\<rparr>"

section \<open>tools/select\_file\_tool.py\<close>

text \<open>
  The metadata store is the list under the key \<open>files\<close> (the empty list when the key or
  the file is missing). Following the store's format, every entry has \<open>title\<close>,
  \<open>file_path\<close> and \<open>file_uri\<close>, which the code reads by index; \<open>content_summary\<close> and
  \<open>topics\<close> are read with \<open>.get\<close> and may be missing.
\<close>

record metadata_file =
  md_title :: str
  md_file_path :: str
  md_file_uri :: str
  md_content_summary :: "str option"
  md_topics :: "str list option"

text \<open>
  The dictionary describing one file as the tools exchange it. The response generator reads
  every key with \<open>.get\<close>, so each one is optional.
\<close>

record file_info =
  title :: "str option"
  file_path :: "str option"
  file_uri :: "str option"
  content_summary :: "str option"
  topics :: "str list option"

record selection_result =
  selected_files :: "file_info list"
  not_found :: "str list"
  total_selected :: nat

text \<open>
  \<open>title_map\<close>, the dictionary comprehension of lines 60 to 63: a later file with the same
  lower-cased title overwrites an earlier one. \<open>str.lower\<close> is the parameter \<open>lower\<close>.
\<close>

definition title_map :: "(str \<Rightarrow> str) \<Rightarrow> metadata_file list \<Rightarrow> (str \<times> metadata_file) list" where
  "title_map lower files =
     fold (\<lambda>file_info m. AList.update (lower (md_title file_info)) file_info m) files []"

text \<open>The dictionary appended to \<open>selected_files\<close> (lines 69 to 75).\<close>

definition selected_entry :: "metadata_file \<Rightarrow> file_info" where
  "selected_entry f =
     \<lparr>title = Some (md_title f),
      file_path = Some (md_file_path f),
      file_uri = Some (md_file_uri f),
      content_summary = Some (case md_content_summary f of Some s \<Rightarrow> s | None \<Rightarrow> []),
      topics = Some (case md_topics f of Some ts \<Rightarrow> ts | None \<Rightarrow> [])\<rparr>"

fun select_loop ::
  "(str \<Rightarrow> str) \<Rightarrow> (str \<times> metadata_file) list \<Rightarrow> str list \<Rightarrow> file_info list \<Rightarrow> str list \<Rightarrow>
   file_info list \<times> str list" where
  "select_loop lower tm [] selected missing = (selected, missing)"
| "select_loop lower tm (t # titles) selected missing =
     (case map_of tm (lower t) of
        Some f \<Rightarrow> select_loop lower tm titles (selected @ [selected_entry f]) missing
      | None \<Rightarrow> select_loop lower tm titles selected (missing @ [t]))"

definition select_files_by_titles ::
  "(str \<Rightarrow> str) \<Rightarrow> metadata_file list \<Rightarrow> str list \<Rightarrow> selection_result" where
  "select_files_by_titles lower files titles =
     (case select_loop lower (title_map lower files) titles [] [] of
        (selected, missing) \<Rightarrow>
          \<lparr>selected_files = selected, not_found = missing, total_selected = length selected\<rparr>)"

text \<open>
  An approximation of \<open>str.lower\<close> on ASCII and Latin-1 letters, used only to evaluate the
  functions on concrete titles; every theorem below holds for any function \<open>lower\<close>.
\<close>

definition latin_lower :: "str \<Rightarrow> str" where
  "latin_lower s =
     map (\<lambda>c. if (0x41 \<le> c \<and> c \<le> 0x5A) \<or> (0xC0 \<le> c \<and> c \<le> 0xDE \<and> c \<noteq> 0xD7) then c + 0x20 else c) s"

section \<open>tools/response\_generator\_tool.py\<close>

text \<open>
  The external services of the generator. A \<open>types.Part\<close> of the model provider is an
  attachment made from the URI of an uploaded file, a text, a function call of the decision
  engine or the response to one (the last two are declared with the decision engine below).
  A generation stream is finite: the chunks it delivers (each with its \<open>text\<close>, which may
  be \<open>None\<close>) and then, when it fails, the text of the exception it raises.
\<close>

type_synonym stream = "str option list \<times> str option"

datatype attachment = FromUri str | TextPart str

datatype generation_request = GenerateContent "attachment list" | ChatMessage str

record services =
  path_exists :: "str \<Rightarrow> bool"
  files_upload :: "str \<Rightarrow> str + str"
  generate_content_stream :: "attachment list \<Rightarrow> stream"
  send_message_stream :: "str \<Rightarrow> stream"

text \<open>
  \<open>path_exists\<close> is \<open>os.path.exists\<close>; \<open>files_upload\<close> is \<open>client.files.upload\<close> followed by
  \<open>types.Part.from_uri\<close>, giving the URI of the uploaded file (\<open>Inr\<close>) or the exception
  (\<open>Inl\<close>); the two stream functions are \<open>client.models.generate_content_stream\<close> and
  \<open>chat.send_message_stream\<close>.
\<close>

record generator_state =
  chat :: bool
  conversation_history :: "(str \<times> str) list"

definition create_chat_session :: "generator_state \<Rightarrow> generator_state" where
  "create_chat_session g = g\<lparr>chat := True, conversation_history := []\<rparr>"

definition GENERATION_ERROR_PREFIX :: str where
  "GENERATION_ERROR_PREFIX =
     [0x62B1, 0x6B49, 0xFF0C, 0x751F, 0x6210, 0x54CD, 0x5E94, 0x65F6, 0x51FA, 0x73B0, 0x9519,
      0x8BEF, 0x3A, 0x20]"

definition KNOWLEDGE_HEADER :: str where
  "KNOWLEDGE_HEADER =
     [0xA, 0x3010, 0x7528, 0x6237, 0x77E5, 0x8BC6, 0x6C34, 0x5E73, 0x80CC, 0x666F, 0x3011, 0xA]"

definition LEVEL_SUFFIX :: str where
  "LEVEL_SUFFIX = [0x20, 0x6C34, 0x5E73, 0xA]"

definition DETAIL_PREFIX :: str where
  "DETAIL_PREFIX = [0x20, 0x20, 0x8BE6, 0x60C5, 0x3A, 0x20]"

definition KNOWLEDGE_FOOTER :: str where
  "KNOWLEDGE_FOOTER =
     [0xA, 0x8BF7, 0x6839, 0x636E, 0x7528, 0x6237, 0x7684, 0x77E5, 0x8BC6, 0x6C34, 0x5E73,
      0xFF0C, 0x7528, 0x5408, 0x9002, 0x7684, 0x65B9, 0x5F0F, 0x89E3, 0x91CA, 0x6982, 0x5FF5,
      0x3002, 0xA]"

definition DOC_HEADER_OPEN :: str where
  "DOC_HEADER_OPEN = [0xA, 0x3010, 0x53C2, 0x8003, 0x6587, 0x6863, 0x3A, 0x20]"

definition DOC_HEADER_CLOSE :: str where
  "DOC_HEADER_CLOSE = [0x3011, 0xA]"

definition TOPICS_PREFIX :: str where
  "TOPICS_PREFIX = [0x4E3B, 0x9898, 0x3A, 0x20]"

definition SUMMARY_PREFIX :: str where
  "SUMMARY_PREFIX = [0x5185, 0x5BB9, 0x6458, 0x8981, 0x3A, 0x20]"

definition QUESTION_PREFIX :: str where
  "QUESTION_PREFIX = [0x7528, 0x6237, 0x95EE, 0x9898, 0x3A, 0x20]"

definition CLOSING_INSTRUCTION :: str where
  "CLOSING_INSTRUCTION =
     [0x8BF7, 0x63D0, 0x4F9B, 0x8BE6, 0x7EC6, 0x3001, 0x51C6, 0x786E, 0x3001, 0x6613, 0x61C2,
      0x7684, 0x56DE, 0x7B54, 0x3002]"

definition UNKNOWN_FILE :: str where
  "UNKNOWN_FILE = [0x672A, 0x77E5, 0x6587, 0x4EF6]"

definition NEWLINE :: str where
  "NEWLINE = [0xA]"

text \<open>\<open>_format_knowledge_level_context\<close>: one or two lines for each subject, in order.\<close>

definition format_subject :: "str \<times> subject_info \<Rightarrow> str" where
  "format_subject p =
     ascii ''- '' @ fst p @ ascii '': '' @ info_level (snd p) @ LEVEL_SUFFIX @
     (if info_detailed_description (snd p) \<noteq> []
      then DETAIL_PREFIX @ info_detailed_description (snd p) @ NEWLINE else [])"

definition format_knowledge_level_context :: "knowledge_result \<Rightarrow> str" where
  "format_knowledge_level_context k =
     KNOWLEDGE_HEADER @ concat (map format_subject (subjects_info k)) @ KNOWLEDGE_FOOTER"

text \<open>\<open>_format_single_file_context\<close>: the textual summary of one file.\<close>

definition format_single_file_context :: "file_info \<Rightarrow> str" where
  "format_single_file_context fi =
     (let t = (case title fi of Some x \<Rightarrow> x | None \<Rightarrow> UNKNOWN_FILE);
          summary = (case content_summary fi of Some x \<Rightarrow> x | None \<Rightarrow> []);
          ts = (case topics fi of Some x \<Rightarrow> x | None \<Rightarrow> [])
      in DOC_HEADER_OPEN @ t @ DOC_HEADER_CLOSE @
         (if ts \<noteq> [] then TOPICS_PREFIX @ join (ascii '', '') ts @ NEWLINE else []) @
         (if summary \<noteq> [] then SUMMARY_PREFIX @ summary @ NEWLINE else []) @
         NEWLINE)"

text \<open>\<open>_build_prompt\<close>.\<close>

definition build_prompt :: "str \<Rightarrow> str list \<Rightarrow> str" where
  "build_prompt user_query context_parts =
     (if context_parts \<noteq> []
      then concat context_parts @ NEWLINE @ replicate 60 0x2D @ NEWLINE @ NEWLINE else []) @
     QUESTION_PREFIX @ user_query @ NEWLINE @ NEWLINE @ CLOSING_INSTRUCTION"

text \<open>
  The loop of lines 82 to 106 over the selected files, on the two variables it changes:
  a file whose path is set, exists and uploads is appended to \<open>content_parts\<close>; for any other
  file (the path missing, empty or not existing, or the upload raising) its summary is put
  in front of \<open>prompt\<close>. The exception of one upload is caught inside the loop.
\<close>

fun attach_files ::
  "services \<Rightarrow> file_info list \<Rightarrow> attachment list \<Rightarrow> str \<Rightarrow> attachment list \<times> str" where
  "attach_files sv [] content_parts prompt = (content_parts, prompt)"
| "attach_files sv (fi # rest) content_parts prompt =
     (case file_path fi of
        None \<Rightarrow>
          attach_files sv rest content_parts (format_single_file_context fi @ NEWLINE @ prompt)
      | Some p \<Rightarrow>
          if p \<noteq> [] \<and> path_exists sv p then
            (case files_upload sv p of
               Inr uploaded_uri \<Rightarrow>
                 attach_files sv rest (content_parts @ [FromUri uploaded_uri]) prompt
             | Inl e \<Rightarrow>
                 attach_files sv rest content_parts
                   (format_single_file_context fi @ NEWLINE @ prompt))
          else
            attach_files sv rest content_parts
              (format_single_file_context fi @ NEWLINE @ prompt))"

text \<open>
  What the function sends to the generation service, and the final value of \<open>prompt\<close>:
  lines 59 to 67, then the branch taken at lines 77, 112 and 134. A knowledge-level
  dictionary always has its two keys, so the test \<open>if knowledge_level_info\<close> is the test
  that it is not \<open>None\<close>; \<open>None\<close> and the empty list of files take the same branch.
\<close>

definition build_request ::
  "services \<Rightarrow> str \<Rightarrow> knowledge_result option \<Rightarrow> file_info list option \<Rightarrow>
   generation_request \<times> str" where
  "build_request sv user_query knowledge_level_info files =
     (let context_parts =
            (case knowledge_level_info of
               Some k \<Rightarrow> [format_knowledge_level_context k] | None \<Rightarrow> []);
          prompt = build_prompt user_query context_parts
      in case files of
           None \<Rightarrow> (ChatMessage prompt, prompt)
         | Some [] \<Rightarrow> (ChatMessage prompt, prompt)
         | Some (fi # rest) \<Rightarrow>
             (case attach_files sv (fi # rest) [] prompt of
                (uploaded, prompt') \<Rightarrow>
                  let content_parts = uploaded @ [TextPart prompt']
                  in if length content_parts > 1
                     then (GenerateContent content_parts, prompt')
                     else (ChatMessage prompt', prompt')))"

text \<open>The loop \<open>for chunk in response_stream\<close>, appending each non-empty chunk text.\<close>

fun consume :: "str \<Rightarrow> str option list \<Rightarrow> str" where
  "consume full_response [] = full_response"
| "consume full_response (c # cs) =
     consume (case c of None \<Rightarrow> full_response
              | Some t \<Rightarrow> if t \<noteq> [] then full_response @ t else full_response) cs"

text \<open>
  The stream a request is answered with, and the session it needs: a chat message creates
  the chat session first when there is none.
\<close>

definition request_stream :: "services \<Rightarrow> generation_request \<Rightarrow> stream" where
  "request_stream sv req =
     (case req of
        GenerateContent content_parts \<Rightarrow> generate_content_stream sv content_parts
      | ChatMessage prompt \<Rightarrow> send_message_stream sv prompt)"

definition open_session :: "generation_request \<Rightarrow> generator_state \<Rightarrow> generator_state" where
  "open_session req g =
     (case req of
        GenerateContent content_parts \<Rightarrow> g
      | ChatMessage prompt \<Rightarrow> if chat g then g else create_chat_session g)"

text \<open>
  The \<open>try\<close> block and its handler (lines 74 to 148): \<open>full_response\<close> holds the chunks read
  so far; when the stream raises, the handler assigns the error notice to it.
\<close>

definition read_stream :: "stream \<Rightarrow> str" where
  "read_stream s =
     (let full_response = consume [] (fst s)
      in case snd s of
           None \<Rightarrow> full_response
         | Some e \<Rightarrow> GENERATION_ERROR_PREFIX @ e)"

definition generate_response_stream ::
  "services \<Rightarrow> generator_state \<Rightarrow> str \<Rightarrow> knowledge_result option \<Rightarrow> file_info list option \<Rightarrow>
   str \<times> generator_state" where
  "generate_response_stream sv g user_query knowledge_level_info files =
     (case build_request sv user_query knowledge_level_info files of
        (req, prompt) \<Rightarrow>
          let g1 = open_session req g;
              full_response = read_stream (request_stream sv req)
          in (full_response,
              g1\<lparr>conversation_history :=
                    conversation_history g1 @
                    [(ascii ''user'', prompt), (ascii ''assistant'', full_response)]\<rparr>))"

section \<open>The decision engine and the agent (main.py, app.py)\<close>

text \<open>
  A function call asked by the decision engine. Its arguments follow the declared schema of
  the three tools: each key may be missing, keys outside the schema are never read.
\<close>

record call_args =
  arg_subjects :: "str list option"
  arg_file_titles :: "str list option"
  arg_user_query :: "str option"
  arg_use_knowledge_level :: "bool option"
  arg_use_selected_files :: "bool option"

record function_call =
  name :: str
  args :: call_args

record response_result =
  response :: str
  used_knowledge_level :: bool
  used_files :: bool
  response_length :: nat

text \<open>What \<open>execute_function\<close> returns is one of the three dictionaries, or \<open>None\<close>.\<close>

datatype tool_result =
  KnowledgeLevel knowledge_result
| SelectedFiles selection_result
| DetailedResponse response_result

datatype part =
  Text str
| FunctionCall function_call
| FunctionResponse str "tool_result option"

datatype role = User | Model

record content =
  role :: role
  parts :: "part list"

text \<open>
  A response of the decision engine: \<open>response.text\<close> and \<open>response.candidates\<close>, each
  candidate given by its \<open>content\<close>.
\<close>

record model_response =
  response_text :: "str option"
  candidates :: "content list"

text \<open>
  The world outside the agent: the services of the generator, \<open>str.lower\<close>, and the decision
  engine, which answers the conversation sent to it or raises (\<open>Inl\<close>, with the text of the
  exception). With a chat session the conversation is the one the session holds; without one
  it is the list \<open>conversation_history\<close> of the code.
\<close>

record world =
  services :: services
  str_lower :: "str \<Rightarrow> str"
  generate_content :: "content list \<Rightarrow> str + model_response"

record agent =
  memory_tool :: memory_data
  select_file_tool :: "metadata_file list"
  response_generator :: generator_state

definition GET_KNOWLEDGE_LEVEL :: str where
  "GET_KNOWLEDGE_LEVEL = ascii ''get_knowledge_level''"

definition SELECT_RELEVANT_FILES :: str where
  "SELECT_RELEVANT_FILES = ascii ''select_relevant_files''"

definition GENERATE_DETAILED_RESPONSE :: str where
  "GENERATE_DETAILED_RESPONSE = ascii ''generate_detailed_response''"

text \<open>
  \<open>DirectorAgent.execute_function\<close> (main.py lines 370 to 453, app.py lines 283 to 321; the
  two differ in what they print). It returns the result and the agent, whose response
  generator the third tool changes.
\<close>

definition execute_function ::
  "world \<Rightarrow> agent \<Rightarrow> function_call \<Rightarrow> str \<Rightarrow> knowledge_result option \<Rightarrow>
   selection_result option \<Rightarrow> tool_result option \<times> agent" where
  "execute_function w a function_call user_query klr sfr =
     (if name function_call = GET_KNOWLEDGE_LEVEL then
        (let subjects = (case arg_subjects (args function_call) of Some xs \<Rightarrow> xs | None \<Rightarrow> [])
         in (Some (KnowledgeLevel (get_knowledge_level (memory_tool a) subjects)), a))
      else if name function_call = SELECT_RELEVANT_FILES then
        (let file_titles =
               (case arg_file_titles (args function_call) of Some xs \<Rightarrow> xs | None \<Rightarrow> [])
         in (Some (SelectedFiles
                     (select_files_by_titles (str_lower w) (select_file_tool a) file_titles)), a))
      else if name function_call = GENERATE_DETAILED_RESPONSE then
        (let query =
               (case arg_user_query (args function_call) of Some q \<Rightarrow> q | None \<Rightarrow> user_query);
             use_knowledge =
               (case arg_use_knowledge_level (args function_call) of
                  Some b \<Rightarrow> b | None \<Rightarrow> False);
             use_files =
               (case arg_use_selected_files (args function_call) of
                  Some b \<Rightarrow> b | None \<Rightarrow> False);
             knowledge_info = (if use_knowledge then klr else None);
             files_info =
               (case sfr of
                  Some r \<Rightarrow> if use_files then Some (selected_files r) else None
                | None \<Rightarrow> None)
         in case generate_response_stream (services w) (response_generator a) query
                   knowledge_info files_info of
              (detailed_response, g) \<Rightarrow>
                (Some (DetailedResponse
                         \<lparr>response = detailed_response,
                          used_knowledge_level = use_knowledge,
                          used_files = use_files,
                          response_length = length detailed_response\<rparr>),
                 a\<lparr>response_generator := g\<rparr>))
      else (None, a))"

text \<open>
  The function calls of a response (main.py lines 499 to 505): those of the parts of the
  first candidate, in order.
\<close>

fun call_of :: "part \<Rightarrow> function_call option" where
  "call_of (FunctionCall fc) = Some fc"
| "call_of (Text t) = None"
| "call_of (FunctionResponse n r) = None"

definition function_calls :: "model_response \<Rightarrow> function_call list" where
  "function_calls r =
     (case candidates r of [] \<Rightarrow> [] | c # cs \<Rightarrow> List.map_filter call_of (parts c))"

text \<open>\<open>response.candidates[0].content\<close>, appended to the conversation with the results.\<close>

definition model_turn :: "model_response \<Rightarrow> content list" where
  "model_turn r = (case candidates r of [] \<Rightarrow> [] | c # cs \<Rightarrow> [c])"

text \<open>
  The variables of one run of the loop. \<open>executed\<close> and \<open>decisions\<close> are not variables of
  the code: they record the calls \<open>execute_function\<close> was run on, in order, and the number
  of calls made to the decision engine.
\<close>

record loop_state =
  the_agent :: agent
  knowledge_level_result :: "knowledge_result option"
  selected_files_result :: "selection_result option"
  history :: "content list"
  executed :: "function_call list"
  decisions :: nat

definition max_iterations :: nat where
  "max_iterations = 10"

text \<open>
  The dictionary stored by \<open>knowledge_level_result = result\<close> and its two siblings. Each
  is read in the branch of its own tool, where \<open>execute_function\<close> has returned a
  dictionary of that kind; the value \<open>None\<close> of the other cases is never read there.
\<close>

fun as_knowledge :: "tool_result option \<Rightarrow> knowledge_result option" where
  "as_knowledge (Some (KnowledgeLevel k)) = Some k"
| "as_knowledge r = None"

fun as_selection :: "tool_result option \<Rightarrow> selection_result option" where
  "as_selection (Some (SelectedFiles s)) = Some s"
| "as_selection r = None"

fun as_response :: "tool_result option \<Rightarrow> response_result option" where
  "as_response (Some (DetailedResponse d)) = Some d"
| "as_response r = None"

text \<open>One call to the decision engine with the conversation extended by \<open>new\<close>.\<close>

definition send :: "world \<Rightarrow> content list \<Rightarrow> loop_state \<Rightarrow> (str + model_response) \<times> loop_state" where
  "send w new st =
     (let h = history st @ new
      in (generate_content w h, st\<lparr>history := h, decisions := decisions st + 1\<rparr>))"

text \<open>
  The loop \<open>for function_call in function_calls_list\<close> of \<open>process_query\<close> (main.py lines 518
  to 544) and of \<open>process_query_with_chat\<close> (app.py lines 383 to 406): it returns from the
  whole function at the terminal tool, and otherwise ends with the function responses.
\<close>

datatype batch =
  Returned "tool_result option" loop_state
| Responses "part list" loop_state

fun process_calls ::
  "world \<Rightarrow> str \<Rightarrow> function_call list \<Rightarrow> part list \<Rightarrow> loop_state \<Rightarrow> batch" where
  "process_calls w user_query [] function_responses st = Responses function_responses st"
| "process_calls w user_query (fc # fcs) function_responses st =
     (case execute_function w (the_agent st) fc user_query
             (knowledge_level_result st) (selected_files_result st) of
        (result, a) \<Rightarrow>
          let st1 = st\<lparr>the_agent := a, executed := executed st @ [fc]\<rparr>
          in if name fc = GET_KNOWLEDGE_LEVEL then
               process_calls w user_query fcs
                 (function_responses @ [FunctionResponse (name fc) result])
                 (st1\<lparr>knowledge_level_result := as_knowledge result\<rparr>)
             else if name fc = SELECT_RELEVANT_FILES then
               process_calls w user_query fcs
                 (function_responses @ [FunctionResponse (name fc) result])
                 (st1\<lparr>selected_files_result := as_selection result\<rparr>)
             else if name fc = GENERATE_DETAILED_RESPONSE then
               Returned result st1
             else
               process_calls w user_query fcs
                 (function_responses @ [FunctionResponse (name fc) result]) st1)"

text \<open>
  The \<open>while\<close> loop of \<open>process_query\<close> and \<open>process_query_with_chat\<close>, which are the same
  but for what they print and return. The way the loop is left:
  \<^item> \<open>FinalReply\<close>: the response has no function call (main.py line 507, app.py line 376);
  \<^item> \<open>TaskDone\<close>: the terminal tool was executed (main.py line 532, app.py line 397);
  \<^item> \<open>LimitReached\<close>: the condition of the \<open>while\<close> is false (main.py line 565, app.py
    line 425);
  \<^item> \<open>Raised\<close>: the decision engine raised.
\<close>

datatype exit =
  FinalReply "str option"
| TaskDone "tool_result option"
| LimitReached
| Raised str

function director_loop ::
  "world \<Rightarrow> str \<Rightarrow> nat \<Rightarrow> model_response \<Rightarrow> loop_state \<Rightarrow> exit \<times> nat \<times> loop_state" where
  "director_loop w user_query iteration r st =
     (if iteration < max_iterations then
        (let iteration1 = iteration + 1;
             function_calls_list = function_calls r
         in if function_calls_list = [] then (FinalReply (response_text r), iteration1, st)
            else
              (case process_calls w user_query function_calls_list [] st of
                 Returned result st1 \<Rightarrow> (TaskDone result, iteration1, st1)
               | Responses function_responses st1 \<Rightarrow>
                   (case send w (model_turn r @ [\<lparr>role = User, parts = function_responses\<rparr>]) st1 of
                      (Inl e, st2) \<Rightarrow> (Raised e, iteration1, st2)
                    | (Inr r2, st2) \<Rightarrow> director_loop w user_query iteration1 r2 st2)))
      else (LimitReached, iteration, st))"
  by pat_completeness auto
termination
  by (relation "measure (\<lambda>(w, user_query, iteration, r, st). max_iterations - iteration)") auto

definition initial_state :: "agent \<Rightarrow> content list option \<Rightarrow> loop_state" where
  "initial_state a session =
     \<lparr>the_agent = a, knowledge_level_result = None, selected_files_result = None,
      history = (case session of Some h \<Rightarrow> h | None \<Rightarrow> []),
      executed = [], decisions = 0\<rparr>"

text \<open>
  \<open>process_query\<close> of main.py returns nothing; the model returns the way the loop was left,
  the iteration counter and the final state. An exception of the decision engine is not
  caught there.
\<close>

definition process_query ::
  "world \<Rightarrow> agent \<Rightarrow> str \<Rightarrow> content list option \<Rightarrow> exit \<times> nat \<times> loop_state" where
  "process_query w a user_query session =
     (case send w [\<lparr>role = User, parts = [Text user_query]\<rparr>] (initial_state a session) of
        (Inl e, st) \<Rightarrow> (Raised e, 0, st)
      | (Inr r, st) \<Rightarrow> director_loop w user_query 0 r st)"

definition NO_REPLY_APOLOGY :: str where
  "NO_REPLY_APOLOGY =
     [0x62B1, 0x6B49, 0xFF0C, 0x6211, 0x65E0, 0x6CD5, 0x751F, 0x6210, 0x56DE, 0x590D, 0x3002]"

definition ITERATION_LIMIT_WARNING :: str where
  "ITERATION_LIMIT_WARNING =
     [0x26A0, 0xFE0F, 0x20, 0x8FBE, 0x5230, 0x6700, 0x5927, 0x8FED, 0x4EE3, 0x6B21, 0x6570,
      0x9650, 0x5236]"

definition INVALID_QUERY_WARNING :: str where
  "INVALID_QUERY_WARNING =
     [0x26A0, 0xFE0F, 0x20, 0x8BF7, 0x8F93, 0x5165, 0x6709, 0x6548, 0x7684, 0x95EE, 0x9898]"

definition PROCESSING_ERROR_PREFIX :: str where
  "PROCESSING_ERROR_PREFIX =
     [0x274C, 0x20, 0x5904, 0x7406, 0x8FC7, 0x7A0B, 0x4E2D, 0x51FA, 0x73B0, 0x9519, 0x8BEF,
      0x3A, 0x20]"

text \<open>
  The string \<open>process_query_with_chat\<close> returns for each way of leaving the loop. The
  result of the terminal tool always is a response dictionary (lemma
  \<open>execute_terminal_result\<close> below), so the empty string of the other case is never returned.
\<close>

fun reply_of :: "exit \<Rightarrow> str" where
  "reply_of (FinalReply t) =
     (case t of None \<Rightarrow> NO_REPLY_APOLOGY | Some s \<Rightarrow> if s \<noteq> [] then s else NO_REPLY_APOLOGY)"
| "reply_of (TaskDone result) = (case as_response result of Some d \<Rightarrow> response d | None \<Rightarrow> [])"
| "reply_of LimitReached = ITERATION_LIMIT_WARNING"
| "reply_of (Raised e) = PROCESSING_ERROR_PREFIX @ e"

text \<open>
  \<open>process_query_with_chat\<close> of app.py: the reply, the iteration counter and the final
  state (\<open>None\<close> for both when the query is refused before anything is done).
\<close>

definition process_query_with_chat ::
  "world \<Rightarrow> agent \<Rightarrow> str \<Rightarrow> content list option \<Rightarrow> str \<times> (nat \<times> loop_state) option" where
  "process_query_with_chat w a user_query session =
     (if user_query = [] \<or> strip user_query = [] then (INVALID_QUERY_WARNING, None)
      else case process_query w a user_query session of
             (x, iteration, st) \<Rightarrow> (reply_of x, Some (iteration, st)))"

text \<open>
  \<open>process_query_for_gradio\<close> of app.py. Its \<open>for\<close> loop (lines 495 to 539) has no
  \<open>return\<close> or \<open>break\<close>: the terminal tool sets \<open>final_response\<close>, and the test for it
  (line 542) comes after the loop. Every call is written to \<open>function_call_log\<close> before it
  is executed, so \<open>executed\<close> is also the list of the logged steps.
\<close>

fun gradio_calls ::
  "world \<Rightarrow> str \<Rightarrow> function_call list \<Rightarrow> part list \<Rightarrow> str \<Rightarrow> loop_state \<Rightarrow>
   part list \<times> str \<times> loop_state" where
  "gradio_calls w user_query [] function_responses final_response st =
     (function_responses, final_response, st)"
| "gradio_calls w user_query (fc # fcs) function_responses final_response st =
     (case execute_function w (the_agent st) fc user_query
             (knowledge_level_result st) (selected_files_result st) of
        (result, a) \<Rightarrow>
          let st1 = st\<lparr>the_agent := a, executed := executed st @ [fc]\<rparr>;
              function_responses1 = function_responses @ [FunctionResponse (name fc) result]
          in if name fc = GET_KNOWLEDGE_LEVEL then
               gradio_calls w user_query fcs function_responses1 final_response
                 (st1\<lparr>knowledge_level_result := as_knowledge result\<rparr>)
             else if name fc = SELECT_RELEVANT_FILES then
               gradio_calls w user_query fcs function_responses1 final_response
                 (st1\<lparr>selected_files_result := as_selection result\<rparr>)
             else if name fc = GENERATE_DETAILED_RESPONSE then
               gradio_calls w user_query fcs function_responses1
                 (case as_response result of Some d \<Rightarrow> response d | None \<Rightarrow> final_response) st1
             else
               gradio_calls w user_query fcs function_responses1 final_response st1)"

text \<open>
  The \<open>while\<close> loop of \<open>process_query_for_gradio\<close> (lines 464 to 551), which calls the
  decision engine at the start of each iteration. \<open>Inl\<close> is the message of the handler of
  line 557, \<open>Inr\<close> the value of \<open>final_response\<close> when the loop is left.
\<close>

function gradio_loop ::
  "world \<Rightarrow> str \<Rightarrow> nat \<Rightarrow> str \<Rightarrow> loop_state \<Rightarrow> (str + str) \<times> nat \<times> loop_state" where
  "gradio_loop w user_query iteration final_response st =
     (if iteration < max_iterations then
        (let iteration1 = iteration + 1
         in case send w [] st of
              (Inl e, st1) \<Rightarrow> (Inl (PROCESSING_ERROR_PREFIX @ e), iteration1, st1)
            | (Inr r, st1) \<Rightarrow>
                let function_calls_list = function_calls r
                in if function_calls_list = [] then
                     (Inr (case response_text r of
                             None \<Rightarrow> final_response
                           | Some t \<Rightarrow> if t \<noteq> [] then t else final_response),
                      iteration1, st1)
                   else
                     (case gradio_calls w user_query function_calls_list [] final_response
                             (st1\<lparr>history := history st1 @ model_turn r\<rparr>) of
                        (function_responses, final_response1, st2) \<Rightarrow>
                          if list_ex (\<lambda>fc. name fc = GENERATE_DETAILED_RESPONSE)
                               function_calls_list
                          then (Inr final_response1, iteration1, st2)
                          else gradio_loop w user_query iteration1 final_response1
                                 (st2\<lparr>history :=
                                        history st2 @
                                        [\<lparr>role = User, parts = function_responses\<rparr>]\<rparr>)))
      else (Inr final_response, iteration, st))"
  by pat_completeness auto
termination
  by (relation "measure (\<lambda>(w, user_query, iteration, f, st). max_iterations - iteration)") auto

text \<open>
  \<open>process_query_for_gradio\<close> returns the pair of the rendered log and the final reply (or
  of the error message and the empty string). The model returns the second component
  (\<open>Inr\<close>) or the error message (\<open>Inl\<close>), with the counter and the final state, whose field
  \<open>executed\<close> lists the steps of the log.
\<close>

definition process_query_for_gradio ::
  "world \<Rightarrow> agent \<Rightarrow> str \<Rightarrow> (str + str) \<times> (nat \<times> loop_state) option" where
  "process_query_for_gradio w a user_query =
     (if user_query = [] \<or> strip user_query = [] then (Inl INVALID_QUERY_WARNING, None)
      else case gradio_loop w user_query 0 []
                  ((initial_state a None)
                     \<lparr>history := [\<lparr>role = User, parts = [Text user_query]\<rparr>]\<rparr>) of
             (x, iteration, st) \<Rightarrow> (x, Some (iteration, st)))"

section \<open>Sample stores\<close>

text \<open>Small stores on which the functions are evaluated.\<close>

definition sample_memory :: memory_data where
  "sample_memory =
     \<lparr>md_user_id = Some (ascii ''u1''),
      md_knowledge_levels =
        [ascii ''astronomy'' \<mapsto>
           \<lparr>level = Some (ascii ''beginner''), detailed_description = None\<rparr>]\<rparr>"

definition known_pdf :: metadata_file where
  "known_pdf =
     \<lparr>md_title = ascii ''known.pdf'', md_file_path = ascii ''docs/known.pdf'',
      md_file_uri = ascii ''uri:known'', md_content_summary = Some (ascii ''about the Sun''),
      md_topics = Some [ascii ''astronomy'']\<rparr>"

definition upper_pdf :: metadata_file where
  "upper_pdf =
     \<lparr>md_title = ascii ''A.pdf'', md_file_path = ascii ''docs/first.pdf'',
      md_file_uri = ascii ''uri:first'', md_content_summary = None, md_topics = None\<rparr>"

definition lower_pdf :: metadata_file where
  "lower_pdf =
     \<lparr>md_title = ascii ''a.pdf'', md_file_path = ascii ''docs/second.pdf'',
      md_file_uri = ascii ''uri:second'', md_content_summary = None, md_topics = None\<rparr>"

text \<open>
  Services for the evaluations: every path but \<open>gone.pdf\<close> exists, every upload but the
  one of \<open>bad.pdf\<close> succeeds; the generation with attachments answers in two chunks; the
  chat stream delivers two texts and then raises.
\<close>

definition sample_services :: services where
  "sample_services =
     \<lparr>path_exists = (\<lambda>p. p \<noteq> ascii ''gone.pdf''),
      files_upload =
        (\<lambda>p. if p = ascii ''bad.pdf'' then Inl (ascii ''refused'') else Inr (ascii ''uri:'' @ p)),
      generate_content_stream =
        (\<lambda>content_parts. ([Some (ascii ''The ''), Some (ascii ''Sun'')], None)),
      send_message_stream =
        (\<lambda>prompt. ([Some (ascii ''Hello''), None, Some (ascii '' wor'')], Some (ascii ''boom'')))\<rparr>"

definition sample_file :: "string \<Rightarrow> file_info" where
  "sample_file p =
     \<lparr>title = Some (ascii p), file_path = Some (ascii p), file_uri = Some (ascii ''uri''),
      content_summary = Some (ascii ''summary''), topics = Some []\<rparr>"

definition fresh_generator :: generator_state where
  "fresh_generator = \<lparr>chat = False, conversation_history = []\<rparr>"

text \<open>The same services with a chat stream that answers and does not raise.\<close>

definition calm_services :: services where
  "calm_services =
     sample_services\<lparr>send_message_stream := (\<lambda>prompt. ([Some (ascii ''answer'')], None))\<rparr>"

definition sample_agent :: agent where
  "sample_agent =
     \<lparr>memory_tool = sample_memory, select_file_tool = [known_pdf],
      response_generator = fresh_generator\<rparr>"

text \<open>
  A decision engine that gives the same response whatever it is sent, and the responses it
  may give: a batch of function calls, or a text without function calls.
\<close>

definition stub_world :: "model_response \<Rightarrow> world" where
  "stub_world r =
     \<lparr>services = calm_services, str_lower = latin_lower, generate_content = (\<lambda>h. Inr r)\<rparr>"

definition batch_response :: "function_call list \<Rightarrow> model_response" where
  "batch_response fcs =
     \<lparr>response_text = None, candidates = [\<lparr>role = Model, parts = map FunctionCall fcs\<rparr>]\<rparr>"

definition text_response :: "str option \<Rightarrow> model_response" where
  "text_response t =
     \<lparr>response_text = t,
      candidates = [\<lparr>role = Model, parts = (case t of Some s \<Rightarrow> [Text s] | None \<Rightarrow> [])\<rparr>]\<rparr>"

definition no_args :: call_args where
  "no_args =
     \<lparr>arg_subjects = None, arg_file_titles = None, arg_user_query = None,
      arg_use_knowledge_level = None, arg_use_selected_files = None\<rparr>"

definition lookup_call :: function_call where
  "lookup_call =
     \<lparr>name = GET_KNOWLEDGE_LEVEL, args = no_args\<lparr>arg_subjects := Some [ascii ''astronomy'']\<rparr>\<rparr>"

definition select_call :: function_call where
  "select_call =
     \<lparr>name = SELECT_RELEVANT_FILES,
      args = no_args\<lparr>arg_file_titles := Some [ascii ''known.pdf'']\<rparr>\<rparr>"

definition terminal_call :: function_call where
  "terminal_call = \<lparr>name = GENERATE_DETAILED_RESPONSE, args = no_args\<rparr>"

definition unknown_call :: function_call where
  "unknown_call = \<lparr>name = ascii ''web_search'', args = no_args\<rparr>"

text \<open>
  A decision engine that asks for the knowledge level as long as the conversation sent to
  it has fewer than 21 messages, and then gives its final answer as a plain text. Starting
  from one message, each round adds two, so the answer is the eleventh response.
\<close>

definition late_answer_world :: world where
  "late_answer_world =
     \<lparr>services = calm_services, str_lower = latin_lower,
      generate_content =
        (\<lambda>h. if length h < 21 then Inr (batch_response [lookup_call])
             else Inr (text_response (Some (ascii ''final''))))\<rparr>"

section \<open>Notions used in the statements\<close>

text \<open>
  A requested title is present in the store when some stored title is equal to it up to
  case: this is the test \<open>title_lower in title_map\<close> of the code.
\<close>

definition matches :: "(str \<Rightarrow> str) \<Rightarrow> metadata_file list \<Rightarrow> str \<Rightarrow> bool" where
  "matches lower files t \<longleftrightarrow> lower t \<in> set (map (\<lambda>f. lower (md_title f)) files)"



text \<open>The text of a chunk, empty when it has none.\<close>

definition chunk_text :: "str option \<Rightarrow> str" where
  "chunk_text c = (case c of None \<Rightarrow> [] | Some t \<Rightarrow> t)"

section \<open>The knowledge-level lookup\<close>

lemma map_of_collect_subjects:
  "map_of (collect_subjects kl subjects info) s =
     (if s \<in> set subjects then Some (subject_entry kl s) else map_of info s)"
  by (induction subjects arbitrary: info) (simp_all add: AList.update_conv')

lemma keys_collect_subjects:
  "fst ` set (collect_subjects kl subjects info) = set subjects \<union> fst ` set info"
  by (induction subjects arbitrary: info) (simp_all add: AList.dom_update)

text \<open>
  Claim C5, as stated, at a concrete input: for the subject \<open>algebra\<close>, absent from the
  store, the lookup does not give the description \<open><no data>\<close>.
\<close>

theorem C5_no_data_counterexample:
  "map_of (subjects_info (get_knowledge_level sample_memory [ascii ''algebra'']))
     (ascii ''algebra'') \<noteq>
   Some \<lparr>info_level = ascii ''unknown'', info_detailed_description = ascii ''<no data>''\<rparr>"
  by (simp add: get_knowledge_level_def sample_memory_def subject_entry_def
      NOT_FOUND_PREFIX_def NOT_FOUND_SUFFIX_def)

text \<open>
  Claim C5, amended: for every store and every list of requested subjects, the keys of
  \<open>subjects_info\<close> are exactly the requested subjects, and each one is mapped to a record
  of a level and a description: for a subject absent from the store the level \<open>unknown\<close>
  and the notice that nothing was found about it, which names the subject; for a subject of
  the store its level (\<open>unknown\<close> when the entry has none) and its description (empty when
  the entry has none). The function is total: the lookup never fails.
\<close>

theorem get_knowledge_level_covers_subjects:
  "fst ` set (subjects_info (get_knowledge_level memory subjects)) = set subjects \<and>
   (\<forall>s \<in> set subjects.
      map_of (subjects_info (get_knowledge_level memory subjects)) s =
        Some (case md_knowledge_levels memory s of
                None \<Rightarrow>
                  \<lparr>info_level = UNKNOWN,
                   info_detailed_description = NOT_FOUND_PREFIX @ s @ NOT_FOUND_SUFFIX\<rparr>
              | Some e \<Rightarrow>
                  \<lparr>info_level = (case level e of Some l \<Rightarrow> l | None \<Rightarrow> UNKNOWN),
                   info_detailed_description =
                     (case detailed_description e of Some d \<Rightarrow> d | None \<Rightarrow> [])\<rparr>))"
  unfolding get_knowledge_level_def
  by (simp add: keys_collect_subjects map_of_collect_subjects subject_entry_def)

theorem get_knowledge_level_covers_subjects_witness:
  "ascii ''algebra'' \<in> set [ascii ''astronomy'', ascii ''algebra''] \<and>
   map_of (subjects_info (get_knowledge_level sample_memory [ascii ''astronomy'', ascii ''algebra'']))
     (ascii ''algebra'') =
   Some \<lparr>info_level = ascii ''unknown'',
         info_detailed_description = NOT_FOUND_PREFIX @ ascii ''algebra'' @ NOT_FOUND_SUFFIX\<rparr> \<and>
   map_of (subjects_info (get_knowledge_level sample_memory [ascii ''astronomy'', ascii ''algebra'']))
     (ascii ''astronomy'') =
   Some \<lparr>info_level = ascii ''beginner'', info_detailed_description = []\<rparr>"
proof -
  have m: "ascii ''algebra'' \<in> set [ascii ''astronomy'', ascii ''algebra'']"
          "ascii ''astronomy'' \<in> set [ascii ''astronomy'', ascii ''algebra'']"
    by simp_all
  have k: "md_knowledge_levels sample_memory (ascii ''algebra'') = None"
          "md_knowledge_levels sample_memory (ascii ''astronomy'') =
             Some \<lparr>level = Some (ascii ''beginner''), detailed_description = None\<rparr>"
    by (simp_all add: sample_memory_def)
  from get_knowledge_level_covers_subjects
         [of sample_memory "[ascii ''astronomy'', ascii ''algebra'']"]
  have "\<forall>s \<in> set [ascii ''astronomy'', ascii ''algebra''].
      map_of (subjects_info
                (get_knowledge_level sample_memory [ascii ''astronomy'', ascii ''algebra''])) s =
        Some (case md_knowledge_levels sample_memory s of
                None \<Rightarrow>
                  \<lparr>info_level = UNKNOWN,
                   info_detailed_description = NOT_FOUND_PREFIX @ s @ NOT_FOUND_SUFFIX\<rparr>
              | Some e \<Rightarrow>
                  \<lparr>info_level = (case level e of Some l \<Rightarrow> l | None \<Rightarrow> UNKNOWN),
                   info_detailed_description =
                     (case detailed_description e of Some d \<Rightarrow> d | None \<Rightarrow> [])\<rparr>)"
    by (rule conjunct2)
  from bspec [OF this m(1)] bspec [OF this m(2)] show ?thesis
    unfolding k by (simp add: UNKNOWN_def)
qed

section \<open>Document selection\<close>

lemma select_loop_eq:
  "select_loop lower tm titles selected missing =
     (selected @ map (\<lambda>t. selected_entry (the (map_of tm (lower t))))
                   (filter (\<lambda>t. map_of tm (lower t) \<noteq> None) titles),
      missing @ filter (\<lambda>t. map_of tm (lower t) = None) titles)"
proof (induction titles arbitrary: selected missing)
  case Nil
  show ?case by simp
next
  case (Cons t titles)
  show ?case
  proof (cases "map_of tm (lower t)")
    case None
    then show ?thesis by (simp add: Cons.IH)
  next
    case (Some f)
    then show ?thesis by (simp add: Cons.IH)
  qed
qed

lemma map_of_fold_update:
  "map_of (fold (\<lambda>f m. AList.update (key f) f m) files acc) k =
     (case filter (\<lambda>f. key f = k) (rev files) of [] \<Rightarrow> map_of acc k | f # _ \<Rightarrow> Some f)"
proof (induction files arbitrary: acc)
  case Nil
  show ?case by simp
next
  case (Cons g files)
  show ?case
    by (simp add: Cons.IH AList.update_conv' split: list.splits)
qed

lemma map_of_title_map:
  "map_of (title_map lower files) k =
     (case filter (\<lambda>f. lower (md_title f) = k) (rev files) of [] \<Rightarrow> None | f # _ \<Rightarrow> Some f)"
  unfolding title_map_def by (simp add: map_of_fold_update split: list.splits)

lemma title_map_None:
  "map_of (title_map lower files) (lower t) = None \<longleftrightarrow> \<not> matches lower files t"
proof -
  have "(map_of (title_map lower files) (lower t) = None) \<longleftrightarrow>
        filter (\<lambda>f. lower (md_title f) = lower t) (rev files) = []"
    by (simp add: map_of_title_map split: list.splits)
  also have "\<dots> \<longleftrightarrow> \<not> matches lower files t"
    unfolding matches_def filter_empty_conv set_rev set_map image_iff by (metis (no_types))
  finally show ?thesis .
qed

lemma title_map_Some:
  assumes "map_of (title_map lower files) k = Some f"
  shows "f \<in> set files \<and> lower (md_title f) = k"
proof -
  from assms obtain rest where "filter (\<lambda>f. lower (md_title f) = k) (rev files) = f # rest"
    by (auto simp: map_of_title_map split: list.splits)
  then have "f \<in> set (filter (\<lambda>f. lower (md_title f) = k) (rev files))" by simp
  then show ?thesis by simp
qed

lemma title_map_last:
  assumes "f \<in> set files" and "lower (md_title f) = k"
  shows "map_of (title_map lower files) k =
           Some (last (filter (\<lambda>g. lower (md_title g) = k) files))"
proof -
  let ?xs = "filter (\<lambda>g. lower (md_title g) = k) files"
  from assms have ne: "?xs \<noteq> []" by (auto simp: filter_empty_conv)
  have "filter (\<lambda>g. lower (md_title g) = k) (rev files) = rev ?xs" by (simp add: rev_filter)
  moreover obtain y ys where y: "rev ?xs = y # ys"
    using ne by (cases "rev ?xs") simp_all
  moreover have "y = last ?xs"
    using y ne hd_rev [of ?xs] by simp
  ultimately show ?thesis by (simp add: map_of_title_map)
qed

lemma not_found_eq:
  "not_found (select_files_by_titles lower files titles) =
     filter (\<lambda>t. \<not> matches lower files t) titles"
  by (simp add: select_files_by_titles_def select_loop_eq title_map_None)

lemma selected_files_eq:
  "selected_files (select_files_by_titles lower files titles) =
     map (\<lambda>t. selected_entry (the (map_of (title_map lower files) (lower t))))
       (filter (matches lower files) titles)"
proof -
  have "(\<lambda>t. map_of (title_map lower files) (lower t) \<noteq> None) = matches lower files"
    by (auto simp: title_map_None fun_eq_iff)
  then show ?thesis by (simp add: select_files_by_titles_def select_loop_eq)
qed



lemma filter_distinct_key:
  "distinct (map key xs) \<Longrightarrow> f \<in> set xs \<Longrightarrow> filter (\<lambda>g. key g = key f) xs = [f]"
proof (induction xs)
  case Nil
  then show ?case by simp
next
  case (Cons x xs)
  show ?case
  proof (cases "x = f")
    case True
    with Cons.prems have "\<forall>g \<in> set xs. key g \<noteq> key f" by (auto simp: image_iff)
    then have "filter (\<lambda>g. key g = key f) xs = []" by (simp add: filter_empty_conv)
    with True show ?thesis by simp
  next
    case False
    with Cons.prems have "f \<in> set xs" and "key x \<noteq> key f" by (auto simp: image_iff)
    with Cons show ?thesis by simp
  qed
qed



text \<open>
  Claim C9, as stated, at a concrete input: the store holds \<open>A.pdf\<close> and then \<open>a.pdf\<close>;
  the requested title \<open>A.pdf\<close> is equal up to case (and literally) to the stored title
  \<open>A.pdf\<close>, yet the entry of that file is not among the selected files: the entry returned
  is the one of \<open>a.pdf\<close>.
\<close>

theorem C9_shadowed_title_counterexample:
  "upper_pdf \<in> set [upper_pdf, lower_pdf] \<and>
   latin_lower (ascii ''A.pdf'') = latin_lower (md_title upper_pdf) \<and>
   selected_entry upper_pdf \<notin>
     set (selected_files (select_files_by_titles latin_lower [upper_pdf, lower_pdf]
            [ascii ''A.pdf'']))"
  by (simp add: select_files_by_titles_def title_map_def latin_lower_def selected_entry_def
      upper_pdf_def lower_pdf_def)

text \<open>
  Claim C9, amended: for every stored file and every requested title equal up to case to
  its title, the requested title is not reported in \<open>not_found\<close>, and the last stored file
  whose title is equal to it up to case is selected, the returned entry carrying that
  file's own title, path, URI, summary and topics. When no two stored titles are equal up
  to case, that file is the stored file itself.
\<close>

theorem select_files_case_insensitive:
  assumes "t \<in> set titles" and "f \<in> set files" and "lower t = lower (md_title f)"
  shows "t \<notin> set (not_found (select_files_by_titles lower files titles)) \<and>
         (let g = last (filter (\<lambda>g. lower (md_title g) = lower t) files)
          in g \<in> set files \<and> lower (md_title g) = lower t \<and>
             \<lparr>title = Some (md_title g), file_path = Some (md_file_path g),
              file_uri = Some (md_file_uri g),
              content_summary = Some (case md_content_summary g of Some s \<Rightarrow> s | None \<Rightarrow> []),
              topics = Some (case md_topics g of Some ts \<Rightarrow> ts | None \<Rightarrow> [])\<rparr>
             \<in> set (selected_files (select_files_by_titles lower files titles))) \<and>
         (distinct (map (\<lambda>g. lower (md_title g)) files) \<longrightarrow>
            last (filter (\<lambda>g. lower (md_title g) = lower t) files) = f)"
proof -
  let ?g = "last (filter (\<lambda>g. lower (md_title g) = lower t) files)"
  from assms have m: "matches lower files t" by (auto simp: matches_def)
  from assms have look: "map_of (title_map lower files) (lower t) = Some ?g"
    by (simp add: title_map_last)
  from title_map_Some [OF look] have g: "?g \<in> set files" "lower (md_title ?g) = lower t"
    by simp_all
  from m have nf: "t \<notin> set (not_found (select_files_by_titles lower files titles))"
    by (simp add: not_found_eq)
  from m assms(1) look
  have "selected_entry ?g \<in> set (selected_files (select_files_by_titles lower files titles))"
    by (force simp: selected_files_eq)
  then have sel: "\<lparr>title = Some (md_title ?g), file_path = Some (md_file_path ?g),
              file_uri = Some (md_file_uri ?g),
              content_summary = Some (case md_content_summary ?g of Some s \<Rightarrow> s | None \<Rightarrow> []),
              topics = Some (case md_topics ?g of Some ts \<Rightarrow> ts | None \<Rightarrow> [])\<rparr>
             \<in> set (selected_files (select_files_by_titles lower files titles))"
    by (simp add: selected_entry_def)
  have "?g = f" if "distinct (map (\<lambda>g. lower (md_title g)) files)"
    using filter_distinct_key [OF that assms(2)] assms(3) by simp
  with nf g sel show ?thesis by (simp add: Let_def)
qed

theorem select_files_case_insensitive_witness:
  "ascii ''KNOWN.PDF'' \<in> set [ascii ''KNOWN.PDF''] \<and> known_pdf \<in> set [known_pdf] \<and>
   latin_lower (ascii ''KNOWN.PDF'') = latin_lower (md_title known_pdf) \<and>
   distinct (map (\<lambda>g. latin_lower (md_title g)) [known_pdf]) \<and>
   ascii ''KNOWN.PDF'' \<notin>
     set (not_found (select_files_by_titles latin_lower [known_pdf] [ascii ''KNOWN.PDF''])) \<and>
   selected_entry known_pdf \<in>
     set (selected_files (select_files_by_titles latin_lower [known_pdf] [ascii ''KNOWN.PDF'']))"
proof -
  have a: "ascii ''KNOWN.PDF'' \<in> set [ascii ''KNOWN.PDF'']" "known_pdf \<in> set [known_pdf]"
    by simp_all
  have b: "latin_lower (ascii ''KNOWN.PDF'') = latin_lower (md_title known_pdf)"
    by (simp add: latin_lower_def known_pdf_def)
  have d: "distinct (map (\<lambda>g. latin_lower (md_title g)) [known_pdf])" by simp
  have l: "last (filter (\<lambda>g. latin_lower (md_title g) = latin_lower (ascii ''KNOWN.PDF''))
             [known_pdf]) = known_pdf"
    using b by simp
  from select_files_case_insensitive [OF a b] show ?thesis
    unfolding l using a b d by (simp add: Let_def selected_entry_def)
qed

section \<open>The response generator\<close>


lemma consume_eq: "consume full cs = full @ concat (map chunk_text cs)"
  by (induction cs arbitrary: full) (simp_all add: chunk_text_def split: option.splits)








text \<open>
  Claim C3, as stated, at a concrete input: the chat stream delivers \<open>Hello\<close> and
  \<open> wor\<close> and then raises \<open>boom\<close>. The text accumulated when it raises is
  \<open>Hello wor\<close>; the function returns the error notice followed by \<open>boom\<close>, which does
  not begin with the accumulated text.
\<close>

theorem C3_partial_output_discarded_counterexample:
  "consume [] (fst (send_message_stream sample_services (build_prompt (ascii ''q'') []))) =
     ascii ''Hello wor'' \<and>
   snd (send_message_stream sample_services (build_prompt (ascii ''q'') [])) =
     Some (ascii ''boom'') \<and>
   fst (generate_response_stream sample_services fresh_generator (ascii ''q'') None None) =
     GENERATION_ERROR_PREFIX @ ascii ''boom'' \<and>
   \<not> prefix (ascii ''Hello wor'')
       (fst (generate_response_stream sample_services fresh_generator (ascii ''q'') None None))"
  by (simp add: generate_response_stream_def build_request_def request_stream_def
      read_stream_def sample_services_def GENERATION_ERROR_PREFIX_def Let_def)

text \<open>
  Claim C3, amended: if the generation stream raises while it is consumed, the function
  returns the error notice followed by the text of the exception, and nothing else: the
  text accumulated from the chunks read before the failure is discarded. If the stream
  does not raise, it returns the concatenation of the texts of the chunks.
\<close>

theorem stream_failure_gives_notice_only:
  "(\<forall>e. snd (request_stream sv (fst (build_request sv q k files))) = Some e \<longrightarrow>
        fst (generate_response_stream sv g q k files) = GENERATION_ERROR_PREFIX @ e) \<and>
   (snd (request_stream sv (fst (build_request sv q k files))) = None \<longrightarrow>
        fst (generate_response_stream sv g q k files) =
          concat (map chunk_text (fst (request_stream sv (fst (build_request sv q k files))))))"
  by (simp add: generate_response_stream_def read_stream_def consume_eq Let_def
      split: prod.splits)

theorem stream_failure_gives_notice_only_witness:
  "snd (request_stream sample_services
          (fst (build_request sample_services (ascii ''q'') None None))) = Some (ascii ''boom'') \<and>
   fst (generate_response_stream sample_services fresh_generator (ascii ''q'') None None) =
     GENERATION_ERROR_PREFIX @ ascii ''boom'' \<and>
   snd (request_stream sample_services
          (fst (build_request sample_services (ascii ''q'') None
                  (Some [sample_file ''ok.pdf''])))) = None \<and>
   fst (generate_response_stream sample_services fresh_generator (ascii ''q'') None
          (Some [sample_file ''ok.pdf''])) = ascii ''The Sun''"
proof -
  have r: "snd (request_stream sample_services
             (fst (build_request sample_services (ascii ''q'') None None))) = Some (ascii ''boom'')"
    by (simp add: build_request_def request_stream_def sample_services_def Let_def)
  have a: "attach_files sample_services [sample_file ''ok.pdf''] [] p =
             ([FromUri (ascii ''uri:ok.pdf'')], p)" for p
    by (simp add: sample_services_def sample_file_def)
  have gcs: "generate_content_stream sample_services cp =
               ([Some (ascii ''The ''), Some (ascii ''Sun'')], None)" for cp
    by (simp add: sample_services_def)
  have n: "request_stream sample_services
             (fst (build_request sample_services (ascii ''q'') None
                     (Some [sample_file ''ok.pdf'']))) =
           ([Some (ascii ''The ''), Some (ascii ''Sun'')], None)"
    unfolding build_request_def Let_def
    by (simp add: a gcs request_stream_def del: attach_files.simps)
  note t1 = stream_failure_gives_notice_only
              [of sample_services "ascii ''q''" None None fresh_generator]
  note t2 = stream_failure_gives_notice_only
              [of sample_services "ascii ''q''" None "Some [sample_file ''ok.pdf'']" fresh_generator]
  from t1 r have 1: "fst (generate_response_stream sample_services fresh_generator (ascii ''q'') None None) =
     GENERATION_ERROR_PREFIX @ ascii ''boom''" by blast
  from t2 have 2: "fst (generate_response_stream sample_services fresh_generator (ascii ''q'') None
          (Some [sample_file ''ok.pdf''])) = ascii ''The Sun''"
    unfolding n by (simp add: chunk_text_def)
  from r 1 2 n show ?thesis by simp
qed

section \<open>Executing one function call\<close>

lemma tool_names_distinct:
  "GET_KNOWLEDGE_LEVEL \<noteq> SELECT_RELEVANT_FILES"
  "GET_KNOWLEDGE_LEVEL \<noteq> GENERATE_DETAILED_RESPONSE"
  "SELECT_RELEVANT_FILES \<noteq> GENERATE_DETAILED_RESPONSE"
  by (simp_all add: GET_KNOWLEDGE_LEVEL_def SELECT_RELEVANT_FILES_def
      GENERATE_DETAILED_RESPONSE_def)

text \<open>
  Claim C10: for every call of the terminal tool whose arguments have neither
  \<open>use_knowledge_level\<close> nor \<open>use_selected_files\<close>, both flags are false: the response
  generator is called with \<open>None\<close> for the knowledge level and \<open>None\<close> for the files,
  whatever results the session holds, on the query of the call (the user's query when the
  call has none); the payload reports \<open>used_knowledge_level\<close> and \<open>used_files\<close> false, and
  \<open>response_length\<close> is the length of the response. In the witness the session holds a
  knowledge level and a selection.
\<close>

theorem terminal_flags_default_false:
  assumes "name fc = GENERATE_DETAILED_RESPONSE"
    and "arg_use_knowledge_level (args fc) = None"
    and "arg_use_selected_files (args fc) = None"
  shows "execute_function w a fc uq klr sfr =
     (let query = (case arg_user_query (args fc) of Some q \<Rightarrow> q | None \<Rightarrow> uq);
          out = generate_response_stream (services w) (response_generator a) query None None
      in (Some (DetailedResponse
                  \<lparr>response = fst out, used_knowledge_level = False, used_files = False,
                   response_length = length (fst out)\<rparr>),
          a\<lparr>response_generator := snd out\<rparr>))"
  using assms tool_names_distinct
  by (simp add: execute_function_def Let_def split: prod.splits option.splits)

theorem terminal_flags_default_false_witness:
  "name terminal_call = GENERATE_DETAILED_RESPONSE \<and>
   arg_use_knowledge_level (args terminal_call) = None \<and>
   arg_use_selected_files (args terminal_call) = None \<and>
   fst (execute_function (stub_world (text_response None)) sample_agent terminal_call (ascii ''sun'')
          (Some (get_knowledge_level sample_memory [ascii ''astronomy'']))
          (Some (select_files_by_titles latin_lower [known_pdf] [ascii ''known.pdf'']))) =
   Some (DetailedResponse
           \<lparr>response = ascii ''answer'', used_knowledge_level = False, used_files = False,
            response_length = 6\<rparr>)"
proof -
  have h: "name terminal_call = GENERATE_DETAILED_RESPONSE"
          "arg_use_knowledge_level (args terminal_call) = None"
          "arg_use_selected_files (args terminal_call) = None"
    by (simp_all add: terminal_call_def no_args_def)
  have g: "fst (generate_response_stream (services (stub_world (text_response None)))
                  (response_generator sample_agent) q None None) = ascii ''answer''" for q
    by (simp add: generate_response_stream_def build_request_def request_stream_def
        read_stream_def stub_world_def calm_services_def sample_services_def Let_def)
  from terminal_flags_default_false [OF h, of "stub_world (text_response None)" sample_agent
         "ascii ''sun''" "Some (get_knowledge_level sample_memory [ascii ''astronomy''])"
         "Some (select_files_by_titles latin_lower [known_pdf] [ascii ''known.pdf''])"]
  show ?thesis using h by (simp add: Let_def g)
qed

text \<open>
  Claim C4, as stated, at a concrete input: for the call \<open>web_search\<close>, which is none of
  the three tools, \<open>execute_function\<close> returns \<open>None\<close>: there is no result, so no status
  \<open>Error\<close> and no message \<open>unknown tool\<close>.
\<close>

theorem C4_unknown_tool_counterexample:
  "name unknown_call \<notin> {GET_KNOWLEDGE_LEVEL, SELECT_RELEVANT_FILES, GENERATE_DETAILED_RESPONSE} \<and>
   fst (execute_function (stub_world (text_response None)) sample_agent unknown_call
          (ascii ''sun'') None None) = None"
  by (simp add: execute_function_def unknown_call_def GET_KNOWLEDGE_LEVEL_def
      SELECT_RELEVANT_FILES_def GENERATE_DETAILED_RESPONSE_def)

text \<open>
  Claim C4, amended: for every call whose name is none of the three tools,
  \<open>execute_function\<close> raises nothing and returns \<open>None\<close>, leaving the agent as it is; the
  loops go on with the next call of the batch, and the function response they prepare for
  the decision engine carries \<open>None\<close> under the name of the call.
\<close>

theorem unknown_tool_gives_no_result:
  assumes "name fc \<notin> {GET_KNOWLEDGE_LEVEL, SELECT_RELEVANT_FILES, GENERATE_DETAILED_RESPONSE}"
  shows "execute_function w a fc uq klr sfr = (None, a) \<and>
         process_calls w uq (fc # fcs) frs st =
           process_calls w uq fcs (frs @ [FunctionResponse (name fc) None])
             (st\<lparr>executed := executed st @ [fc]\<rparr>) \<and>
         gradio_calls w uq (fc # fcs) frs final st =
           gradio_calls w uq fcs (frs @ [FunctionResponse (name fc) None]) final
             (st\<lparr>executed := executed st @ [fc]\<rparr>)"
  using assms by (simp add: execute_function_def Let_def)

theorem unknown_tool_gives_no_result_witness:
  "name unknown_call \<notin> {GET_KNOWLEDGE_LEVEL, SELECT_RELEVANT_FILES, GENERATE_DETAILED_RESPONSE} \<and>
   execute_function (stub_world (text_response None)) sample_agent unknown_call
     (ascii ''sun'') None None = (None, sample_agent) \<and>
   process_calls (stub_world (text_response None)) (ascii ''sun'') [unknown_call] []
     (initial_state sample_agent None) =
   Responses [FunctionResponse (ascii ''web_search'') None]
     ((initial_state sample_agent None)\<lparr>executed := [unknown_call]\<rparr>)"
proof -
  have h: "name unknown_call \<notin>
             {GET_KNOWLEDGE_LEVEL, SELECT_RELEVANT_FILES, GENERATE_DETAILED_RESPONSE}"
    by (simp add: unknown_call_def GET_KNOWLEDGE_LEVEL_def
      SELECT_RELEVANT_FILES_def GENERATE_DETAILED_RESPONSE_def)
  have n: "name unknown_call = ascii ''web_search''" by (simp add: unknown_call_def)
  have e: "executed (initial_state sample_agent None) = []" by (simp add: initial_state_def)
  from unknown_tool_gives_no_result [OF h, of "stub_world (text_response None)" sample_agent
        "ascii ''sun''" None None "[]" "[]" "initial_state sample_agent None"]
  show ?thesis using h unfolding n e by simp
qed

section \<open>The loops\<close>

declare director_loop.simps [simp del]
declare gradio_loop.simps [simp del]

lemma process_calls_append:
  "process_calls w uq (pre @ rest) frs st =
     (case process_calls w uq pre frs st of
        Returned r s \<Rightarrow> Returned r s
      | Responses frs1 st1 \<Rightarrow> process_calls w uq rest frs1 st1)"
  by (induction pre arbitrary: frs st) (simp_all add: Let_def split: prod.splits)

lemma process_calls_nonterminal:
  assumes "\<forall>fc \<in> set fcs. name fc \<noteq> GENERATE_DETAILED_RESPONSE"
  shows "\<exists>frs' st'. process_calls w uq fcs frs st = Responses frs' st' \<and>
           executed st' = executed st @ fcs \<and> decisions st' = decisions st \<and>
           history st' = history st"
  using assms
proof (induction fcs arbitrary: frs st)
  case Nil
  show ?case by simp
next
  case (Cons fc fcs)
  obtain result a where e:
    "execute_function w (the_agent st) fc uq (knowledge_level_result st)
       (selected_files_result st) = (result, a)"
    by (cases "execute_function w (the_agent st) fc uq (knowledge_level_result st)
                 (selected_files_result st)")
  from Cons.prems have nt: "name fc \<noteq> GENERATE_DETAILED_RESPONSE"
    and rest: "\<forall>fc \<in> set fcs. name fc \<noteq> GENERATE_DETAILED_RESPONSE" by simp_all
  let ?st1 = "st\<lparr>the_agent := a, executed := executed st @ [fc]\<rparr>"
  let ?frs1 = "frs @ [FunctionResponse (name fc) result]"
  consider (k) "name fc = GET_KNOWLEDGE_LEVEL"
    | (s) "name fc \<noteq> GET_KNOWLEDGE_LEVEL" "name fc = SELECT_RELEVANT_FILES"
    | (u) "name fc \<noteq> GET_KNOWLEDGE_LEVEL" "name fc \<noteq> SELECT_RELEVANT_FILES"
    by blast
  then show ?case
  proof cases
    case k
    from Cons.IH [OF rest, of ?frs1 "?st1\<lparr>knowledge_level_result := as_knowledge result\<rparr>"]
    show ?thesis using k by (simp add: e Let_def)
  next
    case s
    from Cons.IH [OF rest, of ?frs1 "?st1\<lparr>selected_files_result := as_selection result\<rparr>"]
    show ?thesis using s by (simp add: e Let_def)
  next
    case u
    from Cons.IH [OF rest, of ?frs1 ?st1]
    show ?thesis using u nt by (simp add: e Let_def)
  qed
qed

lemma execute_terminal_result:
  assumes "name t = GENERATE_DETAILED_RESPONSE"
  shows "\<exists>d a'. execute_function w a t uq klr sfr = (Some (DetailedResponse d), a') \<and>
           response d = fst (generate_response_stream (services w) (response_generator a)
             (case arg_user_query (args t) of Some q \<Rightarrow> q | None \<Rightarrow> uq)
             (if (case arg_use_knowledge_level (args t) of Some b \<Rightarrow> b | None \<Rightarrow> False)
              then klr else None)
             (case sfr of
                Some r \<Rightarrow> if (case arg_use_selected_files (args t) of Some b \<Rightarrow> b | None \<Rightarrow> False)
                          then Some (selected_files r) else None
              | None \<Rightarrow> None))"
  using assms
  by (simp add: execute_function_def Let_def GET_KNOWLEDGE_LEVEL_def SELECT_RELEVANT_FILES_def
      GENERATE_DETAILED_RESPONSE_def split: prod.splits)

lemma process_calls_stops_at_terminal:
  assumes "\<forall>fc \<in> set pre. name fc \<noteq> GENERATE_DETAILED_RESPONSE"
    and "name t = GENERATE_DETAILED_RESPONSE"
  shows "\<exists>d st'. process_calls w uq (pre @ t # post) frs st = Returned (Some (DetailedResponse d)) st' \<and>
           executed st' = executed st @ pre @ [t]"
proof -
  from process_calls_nonterminal [OF assms(1), of w uq frs st]
  obtain frs1 st1 where p: "process_calls w uq pre frs st = Responses frs1 st1"
    and ex: "executed st1 = executed st @ pre" by blast
  from execute_terminal_result [OF assms(2), of w "the_agent st1" uq
         "knowledge_level_result st1" "selected_files_result st1"]
  obtain d a' where e: "execute_function w (the_agent st1) t uq (knowledge_level_result st1)
       (selected_files_result st1) = (Some (DetailedResponse d), a')" by blast
  have "process_calls w uq (t # post) frs1 st1 =
          Returned (Some (DetailedResponse d)) (st1\<lparr>the_agent := a', executed := executed st1 @ [t]\<rparr>)"
    using assms(2)
    by (simp add: e Let_def GET_KNOWLEDGE_LEVEL_def SELECT_RELEVANT_FILES_def
      GENERATE_DETAILED_RESPONSE_def)
  with p ex show ?thesis by (simp add: process_calls_append)
qed

lemma director_loop_limit:
  assumes eng: "\<forall>h. \<exists>r. generate_content w h = Inr r \<and> function_calls r \<noteq> [] \<and>
                  (\<forall>fc \<in> set (function_calls r). name fc \<noteq> GENERATE_DETAILED_RESPONSE)"
  shows "function_calls r \<noteq> [] \<Longrightarrow>
         \<forall>fc \<in> set (function_calls r). name fc \<noteq> GENERATE_DETAILED_RESPONSE \<Longrightarrow>
         i \<le> max_iterations \<Longrightarrow>
         \<exists>st'. director_loop w uq i r st = (LimitReached, max_iterations, st') \<and>
               decisions st' = decisions st + (max_iterations - i)"
proof (induction "max_iterations - i" arbitrary: i r st)
  case 0
  then have "i = max_iterations" by simp
  then show ?case by (subst director_loop.simps) simp
next
  case (Suc n)
  then have lt: "i < max_iterations" and n: "n = max_iterations - Suc i" by simp_all
  from process_calls_nonterminal [OF Suc.prems(2), of w uq "[]" st]
  obtain frs1 st1 where p: "process_calls w uq (function_calls r) [] st = Responses frs1 st1"
    and d1: "decisions st1 = decisions st" by blast
  let ?h = "history st1 @ model_turn r @ [\<lparr>role = User, parts = frs1\<rparr>]"
  from eng obtain r2 where g: "generate_content w ?h = Inr r2"
    and r2: "function_calls r2 \<noteq> []"
            "\<forall>fc \<in> set (function_calls r2). name fc \<noteq> GENERATE_DETAILED_RESPONSE"
    by blast
  let ?st2 = "st1\<lparr>history := ?h, decisions := decisions st1 + 1\<rparr>"
  from Suc.hyps(1) [OF n r2] lt
  obtain st' where l: "director_loop w uq (Suc i) r2 ?st2 = (LimitReached, max_iterations, st')"
    and d2: "decisions st' = decisions ?st2 + (max_iterations - Suc i)"
    by (metis Suc_leI)
  have "director_loop w uq i r st = director_loop w uq (Suc i) r2 ?st2"
    using lt Suc.prems(1)
    by (subst director_loop.simps) (simp add: p send_def g Let_def)
  with l d1 d2 lt show ?case by simp
qed

lemma process_calls_decisions:
  "process_calls w uq fcs frs st = Returned res st' \<or>
   process_calls w uq fcs frs st = Responses f st' \<Longrightarrow> decisions st' = decisions st"
proof (induction fcs arbitrary: frs st)
  case Nil
  then show ?case by simp
next
  case (Cons fc fcs)
  obtain result a where e:
    "execute_function w (the_agent st) fc uq (knowledge_level_result st)
       (selected_files_result st) = (result, a)"
    by (cases "execute_function w (the_agent st) fc uq (knowledge_level_result st)
                 (selected_files_result st)")
  let ?st1 = "st\<lparr>the_agent := a, executed := executed st @ [fc]\<rparr>"
  let ?frs1 = "frs @ [FunctionResponse (name fc) result]"
  consider (k) "name fc = GET_KNOWLEDGE_LEVEL"
    | (s) "name fc \<noteq> GET_KNOWLEDGE_LEVEL" "name fc = SELECT_RELEVANT_FILES"
    | (t) "name fc \<noteq> GET_KNOWLEDGE_LEVEL" "name fc \<noteq> SELECT_RELEVANT_FILES"
          "name fc = GENERATE_DETAILED_RESPONSE"
    | (u) "name fc \<noteq> GET_KNOWLEDGE_LEVEL" "name fc \<noteq> SELECT_RELEVANT_FILES"
          "name fc \<noteq> GENERATE_DETAILED_RESPONSE"
    by blast
  then show ?case
  proof cases
    case k
    with Cons.prems
    have "process_calls w uq fcs ?frs1 (?st1\<lparr>knowledge_level_result := as_knowledge result\<rparr>) =
            Returned res st' \<or>
          process_calls w uq fcs ?frs1 (?st1\<lparr>knowledge_level_result := as_knowledge result\<rparr>) =
            Responses f st'"
      by (simp add: e Let_def)
    from Cons.IH [OF this] show ?thesis by simp
  next
    case s
    with Cons.prems
    have "process_calls w uq fcs ?frs1 (?st1\<lparr>selected_files_result := as_selection result\<rparr>) =
            Returned res st' \<or>
          process_calls w uq fcs ?frs1 (?st1\<lparr>selected_files_result := as_selection result\<rparr>) =
            Responses f st'"
      by (simp add: e Let_def)
    from Cons.IH [OF this] show ?thesis by simp
  next
    case t
    with Cons.prems have "st' = ?st1" by (simp add: e Let_def)
    then show ?thesis by simp
  next
    case u
    with Cons.prems
    have "process_calls w uq fcs ?frs1 ?st1 = Returned res st' \<or>
          process_calls w uq fcs ?frs1 ?st1 = Responses f st'"
      by (simp add: e Let_def)
    from Cons.IH [OF this] show ?thesis by simp
  qed
qed

lemma director_loop_bounds:
  "i \<le> max_iterations \<Longrightarrow> director_loop w uq i r st = (x, n, st') \<Longrightarrow>
   i \<le> n \<and> n \<le> max_iterations \<and> decisions st' \<le> decisions st + (n - i)"
proof (induction "max_iterations - i" arbitrary: i r st)
  case 0
  then have "i = max_iterations" by simp
  with "0.prems"(2) show ?case by (subst (asm) director_loop.simps) simp
next
  case (Suc k)
  then have lt: "i < max_iterations" and k: "k = max_iterations - Suc i" by simp_all
  note run = Suc.prems(2) [unfolded director_loop.simps [of w uq i r st]]
  show ?case
  proof (cases "function_calls r = []")
    case True
    with run lt show ?thesis by (auto simp: Let_def)
  next
    case False
    show ?thesis
    proof (cases "process_calls w uq (function_calls r) [] st")
      case (Returned res st1)
      with process_calls_decisions [of w uq "function_calls r" "[]" st res st1]
      have "decisions st1 = decisions st" by simp
      with run lt False Returned show ?thesis by (auto simp: Let_def)
    next
      case (Responses frs1 st1)
      with process_calls_decisions [of w uq "function_calls r" "[]" st _ st1 frs1]
      have d1: "decisions st1 = decisions st" by simp
      let ?h = "history st1 @ model_turn r @ [\<lparr>role = User, parts = frs1\<rparr>]"
      let ?st2 = "st1\<lparr>history := ?h, decisions := decisions st1 + 1\<rparr>"
      show ?thesis
      proof (cases "generate_content w ?h")
        case (Inl e)
        with run lt False Responses d1 show ?thesis by (auto simp: Let_def send_def)
      next
        case (Inr r2)
        with run lt False Responses
        have "director_loop w uq (Suc i) r2 ?st2 = (x, n, st')"
          by (simp add: Let_def send_def)
        from Suc.hyps(1) [OF k _ this] lt
        have "Suc i \<le> n \<and> n \<le> max_iterations \<and> decisions st' \<le> decisions ?st2 + (n - Suc i)"
          by (metis Suc_leI)
        moreover have "decisions ?st2 = decisions st + 1" using d1 by simp
        ultimately show ?thesis by arith
      qed
    qed
  qed
qed

lemma strip_nonempty: "strip s \<noteq> [] \<Longrightarrow> s \<noteq> []"
  by (auto simp: strip_def)

lemma stub_world_never_stops:
  assumes "fcs \<noteq> []" and "\<forall>fc \<in> set fcs. name fc \<noteq> GENERATE_DETAILED_RESPONSE"
  shows "\<forall>h. \<exists>r. generate_content (stub_world (batch_response fcs)) h = Inr r \<and>
           function_calls r \<noteq> [] \<and>
           (\<forall>fc \<in> set (function_calls r). name fc \<noteq> GENERATE_DETAILED_RESPONSE)"
proof -
  have "function_calls (batch_response fcs) = fcs"
    by (induction fcs) (simp_all add: function_calls_def batch_response_def List.map_filter_simps)
  with assms show ?thesis by (simp add: stub_world_def)
qed

lemma process_query_limit:
  assumes "\<forall>h. \<exists>r. generate_content w h = Inr r \<and> function_calls r \<noteq> [] \<and>
             (\<forall>fc \<in> set (function_calls r). name fc \<noteq> GENERATE_DETAILED_RESPONSE)"
  shows "\<exists>st. process_query w a uq session = (LimitReached, max_iterations, st) \<and>
              decisions st = max_iterations + 1"
proof -
  let ?st0 = "initial_state a session"
  let ?h = "history ?st0 @ [\<lparr>role = User, parts = [Text uq]\<rparr>]"
  from assms obtain r where g: "generate_content w ?h = Inr r"
    and r: "function_calls r \<noteq> []"
           "\<forall>fc \<in> set (function_calls r). name fc \<noteq> GENERATE_DETAILED_RESPONSE"
    by blast
  let ?st1 = "?st0\<lparr>history := ?h, decisions := decisions ?st0 + 1\<rparr>"
  from director_loop_limit [OF assms r, of 0 uq ?st1]
  obtain st where "director_loop w uq 0 r ?st1 = (LimitReached, max_iterations, st)"
    and "decisions st = decisions ?st1 + max_iterations" by auto
  moreover have "decisions ?st1 = 1" by (simp add: initial_state_def)
  moreover have "process_query w a uq session = director_loop w uq 0 r ?st1"
    by (simp add: process_query_def send_def g Let_def)
  ultimately show ?thesis by simp
qed

lemma process_query_bounds:
  assumes "process_query w a uq session = (x, n, st)"
  shows "n \<le> max_iterations \<and> decisions st \<le> n + 1"
proof -
  let ?st0 = "initial_state a session"
  let ?h = "history ?st0 @ [\<lparr>role = User, parts = [Text uq]\<rparr>]"
  let ?st1 = "?st0\<lparr>history := ?h, decisions := decisions ?st0 + 1\<rparr>"
  have d: "decisions ?st1 = 1" by (simp add: initial_state_def)
  show ?thesis
  proof (cases "generate_content w ?h")
    case (Inl e)
    with assms have "n = 0" and "st = ?st1"
      by (simp_all add: process_query_def send_def Let_def)
    with d show ?thesis by simp
  next
    case (Inr r)
    with assms have "director_loop w uq 0 r ?st1 = (x, n, st)"
      by (simp add: process_query_def send_def Let_def)
    from director_loop_bounds [OF _ this] d show ?thesis by simp
  qed
qed

text \<open>
  What the loop of \<open>process_query\<close> (hence of \<open>process_query_with_chat\<close>) does achieve.
  Whatever the decision engine does, the iteration counter is at most \<open>max_iterations\<close>
  and the number of calls to the decision engine is at most the counter plus one. Against a
  decision engine that always returns function calls, none of them the terminal tool, the
  loop runs exactly \<open>max_iterations = 10\<close> iterations and is left with the fixed warning,
  which \<open>process_query_with_chat\<close> returns; the decision engine has then been called
  \<open>max_iterations + 1\<close> times. The functions are total, so no run goes on for ever.
\<close>

theorem iteration_limit_reached:
  "(\<forall>x n st. process_query w a uq session = (x, n, st) \<longrightarrow>
      n \<le> max_iterations \<and> decisions st \<le> n + 1) \<and>
   ((\<forall>h. \<exists>r. generate_content w h = Inr r \<and> function_calls r \<noteq> [] \<and>
             (\<forall>fc \<in> set (function_calls r). name fc \<noteq> GENERATE_DETAILED_RESPONSE)) \<and>
    strip uq \<noteq> [] \<longrightarrow>
    (\<exists>st. process_query w a uq session = (LimitReached, max_iterations, st) \<and>
          process_query_with_chat w a uq session =
            (ITERATION_LIMIT_WARNING, Some (max_iterations, st)) \<and>
          decisions st = max_iterations + 1 \<and> max_iterations = 10))"
proof (intro conjI allI impI)
  fix x n st
  assume "process_query w a uq session = (x, n, st)"
  from process_query_bounds [OF this]
  show "n \<le> max_iterations" and "decisions st \<le> n + 1" by simp_all
next
  assume h: "(\<forall>h. \<exists>r. generate_content w h = Inr r \<and> function_calls r \<noteq> [] \<and>
             (\<forall>fc \<in> set (function_calls r). name fc \<noteq> GENERATE_DETAILED_RESPONSE)) \<and>
    strip uq \<noteq> []"
  from process_query_limit [OF h [THEN conjunct1], of a uq session]
  obtain st where p: "process_query w a uq session = (LimitReached, max_iterations, st)"
    and d: "decisions st = max_iterations + 1" by blast
  from h have "uq \<noteq> []" by (simp add: strip_nonempty)
  with h p
  have "process_query_with_chat w a uq session =
          (ITERATION_LIMIT_WARNING, Some (max_iterations, st))"
    by (simp add: process_query_with_chat_def)
  with p d show "\<exists>st. process_query w a uq session = (LimitReached, max_iterations, st) \<and>
          process_query_with_chat w a uq session =
            (ITERATION_LIMIT_WARNING, Some (max_iterations, st)) \<and>
          decisions st = max_iterations + 1 \<and> max_iterations = 10"
    by (simp add: max_iterations_def)
qed

theorem iteration_limit_reached_witness:
  "(\<forall>h. \<exists>r. generate_content (stub_world (batch_response [lookup_call, select_call])) h = Inr r \<and>
           function_calls r \<noteq> [] \<and>
           (\<forall>fc \<in> set (function_calls r). name fc \<noteq> GENERATE_DETAILED_RESPONSE)) \<and>
   strip (ascii ''sun'') \<noteq> [] \<and>
   fst (process_query_with_chat (stub_world (batch_response [lookup_call, select_call]))
          sample_agent (ascii ''sun'') None) = ITERATION_LIMIT_WARNING"
proof -
  have nt: "\<forall>fc \<in> set [lookup_call, select_call]. name fc \<noteq> GENERATE_DETAILED_RESPONSE"
    using tool_names_distinct by (simp add: lookup_call_def select_call_def)
  have e: "\<forall>h. \<exists>r. generate_content (stub_world (batch_response [lookup_call, select_call])) h = Inr r \<and>
           function_calls r \<noteq> [] \<and>
           (\<forall>fc \<in> set (function_calls r). name fc \<noteq> GENERATE_DETAILED_RESPONSE)"
    by (rule stub_world_never_stops [OF _ nt]) simp
  have s: "strip (ascii ''sun'') \<noteq> []"
    by (simp add: strip_def py_isspace_def)
  from iteration_limit_reached
         [of "stub_world (batch_response [lookup_call, select_call])" sample_agent
             "ascii ''sun''" None, THEN conjunct2, rule_format, OF conjI, OF e s]
       e s
  show ?thesis by auto
qed

lemma function_calls_text_response: "function_calls (text_response t) = []"
  by (cases t) (simp_all add: function_calls_def text_response_def List.map_filter_simps)

lemma function_calls_batch_response: "function_calls (batch_response fcs) = fcs"
  by (induction fcs) (simp_all add: function_calls_def batch_response_def List.map_filter_simps)

lemma director_loop_plain_reply:
  assumes "i < max_iterations" and "function_calls r = []"
  shows "director_loop w uq i r st = (FinalReply (response_text r), Suc i, st)"
  using assms by (subst director_loop.simps) (simp add: Let_def)

lemma process_query_plain_reply:
  assumes "generate_content w (history (initial_state a session) @
             [\<lparr>role = User, parts = [Text uq]\<rparr>]) = Inr r"
    and "function_calls r = []"
  shows "\<exists>st. process_query w a uq session = (FinalReply (response_text r), 1, st) \<and>
              executed st = [] \<and> decisions st = 1"
  using assms
  by (simp add: process_query_def send_def Let_def director_loop_plain_reply
      max_iterations_def initial_state_def)

text \<open>
  Claim C8, as stated, at a concrete input: the decision engine answers with the empty
  text and no function call. \<open>process_query_with_chat\<close> does not return the empty answer:
  it returns a fixed apology, which is not empty.
\<close>

theorem C8_empty_reply_counterexample:
  "function_calls (text_response (Some [])) = [] \<and>
   response_text (text_response (Some [])) = Some [] \<and>
   fst (process_query_with_chat (stub_world (text_response (Some []))) sample_agent
          (ascii ''hi'') None) = NO_REPLY_APOLOGY \<and>
   NO_REPLY_APOLOGY \<noteq> []"
proof -
  have s: "strip (ascii ''hi'') \<noteq> []" by (simp add: strip_def py_isspace_def)
  have g: "generate_content (stub_world (text_response (Some [])))
             (history (initial_state sample_agent None) @
                [\<lparr>role = User, parts = [Text (ascii ''hi'')]\<rparr>]) = Inr (text_response (Some []))"
    by (simp add: stub_world_def)
  from process_query_plain_reply [OF g function_calls_text_response]
  obtain st where "process_query (stub_world (text_response (Some []))) sample_agent
      (ascii ''hi'') None = (FinalReply (response_text (text_response (Some []))), 1, st)"
    by blast
  with s show ?thesis
    by (simp add: process_query_with_chat_def function_calls_text_response)
       (simp add: text_response_def NO_REPLY_APOLOGY_def)
qed

text \<open>
  Claim C8, amended. Whenever the loop looks at a response without function calls (the
  counter being below \<open>max_iterations\<close>), it is left at once with the text of that response,
  the state unchanged. When this is the first response, nothing has been executed, and
  \<open>process_query_with_chat\<close> returns the text unaltered if it is not empty; if the text is
  missing or empty it returns the fixed apology instead.
\<close>

theorem plain_reply_returned:
  "(i < max_iterations \<and> function_calls r = [] \<longrightarrow>
      director_loop w uq i r st = (FinalReply (response_text r), Suc i, st)) \<and>
   (generate_content w (history (initial_state a session) @
        [\<lparr>role = User, parts = [Text uq]\<rparr>]) = Inr r \<and>
    function_calls r = [] \<and> strip uq \<noteq> [] \<longrightarrow>
      (\<exists>st'. process_query w a uq session = (FinalReply (response_text r), 1, st') \<and>
             executed st' = [] \<and>
             process_query_with_chat w a uq session =
               (case response_text r of
                  None \<Rightarrow> NO_REPLY_APOLOGY
                | Some s \<Rightarrow> if s \<noteq> [] then s else NO_REPLY_APOLOGY,
                Some (1, st'))))"
proof (intro conjI impI)
  assume "i < max_iterations \<and> function_calls r = []"
  then show "director_loop w uq i r st = (FinalReply (response_text r), Suc i, st)"
    by (simp add: director_loop_plain_reply)
next
  assume h: "generate_content w (history (initial_state a session) @
        [\<lparr>role = User, parts = [Text uq]\<rparr>]) = Inr r \<and>
    function_calls r = [] \<and> strip uq \<noteq> []"
  from process_query_plain_reply [of w a session uq r] h
  obtain st' where p: "process_query w a uq session = (FinalReply (response_text r), 1, st')"
    and e: "executed st' = []" by blast
  from h have "uq \<noteq> []" by (simp add: strip_nonempty)
  with h p have "process_query_with_chat w a uq session =
               (case response_text r of
                  None \<Rightarrow> NO_REPLY_APOLOGY
                | Some s \<Rightarrow> if s \<noteq> [] then s else NO_REPLY_APOLOGY,
                Some (1, st'))"
    by (simp add: process_query_with_chat_def)
  with p e show "\<exists>st'. process_query w a uq session = (FinalReply (response_text r), 1, st') \<and>
             executed st' = [] \<and>
             process_query_with_chat w a uq session =
               (case response_text r of
                  None \<Rightarrow> NO_REPLY_APOLOGY
                | Some s \<Rightarrow> if s \<noteq> [] then s else NO_REPLY_APOLOGY,
                Some (1, st'))"
    by blast
qed

theorem plain_reply_returned_witness:
  "generate_content (stub_world (text_response (Some (ascii ''hello''))))
     (history (initial_state sample_agent None) @
        [\<lparr>role = User, parts = [Text (ascii ''hi'')]\<rparr>]) =
     Inr (text_response (Some (ascii ''hello''))) \<and>
   function_calls (text_response (Some (ascii ''hello''))) = [] \<and>
   strip (ascii ''hi'') \<noteq> [] \<and> (0::nat) < max_iterations \<and>
   fst (process_query_with_chat (stub_world (text_response (Some (ascii ''hello''))))
          sample_agent (ascii ''hi'') None) = ascii ''hello'' \<and>
   director_loop (stub_world (text_response (Some (ascii ''hello'')))) (ascii ''hi'') 0
     (text_response (Some (ascii ''hello''))) (initial_state sample_agent None) =
   (FinalReply (Some (ascii ''hello'')), Suc 0, initial_state sample_agent None)"
proof -
  let ?w = "stub_world (text_response (Some (ascii ''hello'')))"
  let ?r = "text_response (Some (ascii ''hello''))"
  have g: "generate_content ?w (history (initial_state sample_agent None) @
        [\<lparr>role = User, parts = [Text (ascii ''hi'')]\<rparr>]) = Inr ?r"
    by (simp add: stub_world_def)
  have f: "function_calls ?r = []" by (rule function_calls_text_response)
  have s: "strip (ascii ''hi'') \<noteq> []" by (simp add: strip_def py_isspace_def)
  have m: "(0::nat) < max_iterations" by (simp add: max_iterations_def)
  have t: "response_text ?r = Some (ascii ''hello'')" by (simp add: text_response_def)
  note inst = plain_reply_returned [of 0 ?r ?w "ascii ''hi''" "initial_state sample_agent None"
               sample_agent None]
  from inst [THEN conjunct1] m f
  have 1: "director_loop ?w (ascii ''hi'') 0 ?r (initial_state sample_agent None) =
             (FinalReply (Some (ascii ''hello'')), Suc 0, initial_state sample_agent None)"
    unfolding t by blast
  from inst [THEN conjunct2] g f s
  have 2: "fst (process_query_with_chat ?w sample_agent (ascii ''hi'') None) = ascii ''hello''"
    unfolding t by auto
  from g f s m 1 2 show ?thesis by blast
qed

lemma gradio_calls_executes_all:
  "\<exists>frs' f' st'. gradio_calls w uq fcs frs f st = (frs', f', st') \<and>
      executed st' = executed st @ fcs \<and> decisions st' = decisions st"
proof (induction fcs arbitrary: frs f st)
  case Nil
  show ?case by simp
next
  case (Cons fc fcs)
  obtain result a where e:
    "execute_function w (the_agent st) fc uq (knowledge_level_result st)
       (selected_files_result st) = (result, a)"
    by (cases "execute_function w (the_agent st) fc uq (knowledge_level_result st)
                 (selected_files_result st)")
  let ?st1 = "st\<lparr>the_agent := a, executed := executed st @ [fc]\<rparr>"
  let ?frs1 = "frs @ [FunctionResponse (name fc) result]"
  consider (k) "name fc = GET_KNOWLEDGE_LEVEL"
    | (s) "name fc \<noteq> GET_KNOWLEDGE_LEVEL" "name fc = SELECT_RELEVANT_FILES"
    | (t) "name fc \<noteq> GET_KNOWLEDGE_LEVEL" "name fc \<noteq> SELECT_RELEVANT_FILES"
          "name fc = GENERATE_DETAILED_RESPONSE"
    | (u) "name fc \<noteq> GET_KNOWLEDGE_LEVEL" "name fc \<noteq> SELECT_RELEVANT_FILES"
          "name fc \<noteq> GENERATE_DETAILED_RESPONSE"
    by blast
  then show ?case
  proof cases
    case k
    from Cons.IH [of ?frs1 f "?st1\<lparr>knowledge_level_result := as_knowledge result\<rparr>"]
    show ?thesis using k by (simp add: e Let_def)
  next
    case s
    from Cons.IH [of ?frs1 f "?st1\<lparr>selected_files_result := as_selection result\<rparr>"]
    show ?thesis using s by (simp add: e Let_def)
  next
    case t
    from Cons.IH [of ?frs1 "case as_response result of Some d \<Rightarrow> response d | None \<Rightarrow> f" ?st1]
    show ?thesis using t by (simp add: e Let_def)
  next
    case u
    from Cons.IH [of ?frs1 f ?st1]
    show ?thesis using u by (simp add: e Let_def)
  qed
qed

lemma gradio_loop_terminal_batch:
  assumes "generate_content w (history st) = Inr r"
    and "i < max_iterations"
    and "\<exists>fc \<in> set (function_calls r). name fc = GENERATE_DETAILED_RESPONSE"
    and "\<And>st1. \<exists>frs st2. gradio_calls w uq (function_calls r) [] f st1 = (frs, answer, st2)"
  shows "\<exists>st'. gradio_loop w uq i f st = (Inr answer, Suc i, st') \<and>
           executed st' = executed st @ function_calls r"
proof -
  let ?st1 = "st\<lparr>history := history st @ [], decisions := decisions st + 1\<rparr>"
  let ?st2 = "?st1\<lparr>history := history ?st1 @ model_turn r\<rparr>"
  from assms(3) have ne: "function_calls r \<noteq> []" by auto
  from assms(4) [of ?st2]
  obtain frs' st' where g: "gradio_calls w uq (function_calls r) [] f ?st2 = (frs', answer, st')"
    by blast
  from gradio_calls_executes_all [of w uq "function_calls r" "[]" f ?st2] g
  have ex: "executed st' = executed ?st2 @ function_calls r" by simp
  from assms(3) have t: "list_ex (\<lambda>fc. name fc = GENERATE_DETAILED_RESPONSE) (function_calls r)"
    by (simp add: list_ex_iff)
  have "gradio_loop w uq i f st = (Inr answer, Suc i, st')"
    using assms(1,2) ne t g
    by (subst gradio_loop.simps) (simp add: send_def Let_def)
  with ex show ?thesis by simp
qed

text \<open>
  \<open>process_query\<close> and \<open>process_query_with_chat\<close> do stop at the terminal tool: when the
  first response asks for calls \<open>pre\<close>, none of them terminal, then the terminal tool, then
  calls \<open>post\<close>, exactly \<open>pre\<close> and the terminal call are executed, and the reply is the
  response of the terminal call.
\<close>

lemma process_query_stops_at_terminal:
  assumes "generate_content w (history (initial_state a session) @
             [\<lparr>role = User, parts = [Text uq]\<rparr>]) = Inr r"
    and "function_calls r = pre @ t # post"
    and "\<forall>fc \<in> set pre. name fc \<noteq> GENERATE_DETAILED_RESPONSE"
    and "name t = GENERATE_DETAILED_RESPONSE"
  shows "\<exists>d st. process_query w a uq session = (TaskDone (Some (DetailedResponse d)), 1, st) \<and>
           reply_of (TaskDone (Some (DetailedResponse d))) = response d \<and>
           executed st = pre @ [t]"
proof -
  let ?st0 = "initial_state a session"
  let ?st1 = "?st0\<lparr>history := history ?st0 @ [\<lparr>role = User, parts = [Text uq]\<rparr>],
                    decisions := decisions ?st0 + 1\<rparr>"
  from process_calls_stops_at_terminal [OF assms(3,4), of w uq post "[]" ?st1]
  obtain d st where p: "process_calls w uq (pre @ t # post) [] ?st1 =
      Returned (Some (DetailedResponse d)) st"
    and e: "executed st = executed ?st1 @ pre @ [t]" by blast
  have "process_query w a uq session = (TaskDone (Some (DetailedResponse d)), 1, st)"
    using assms(1,2) p
    by (simp add: process_query_def send_def Let_def)
       (subst director_loop.simps, simp add: max_iterations_def Let_def)
  moreover have "executed ?st1 = []" by (simp add: initial_state_def)
  ultimately show ?thesis using e by simp
qed

text \<open>
  Claim C1 at the batch of the knowledge-level lookup, the terminal tool and the document
  selection, in this order. \<open>process_query_for_gradio\<close> returns the answer of the terminal
  call but executes the three calls, the document selection included: its test for the
  terminal tool comes after the loop over the batch. On the same batch
  \<open>process_query_with_chat\<close> executes the first two calls only.
\<close>

theorem C1_gradio_runs_whole_batch:
  "fst (process_query_for_gradio
          (stub_world (batch_response [lookup_call, terminal_call, select_call]))
          sample_agent (ascii ''sun'')) = Inr (ascii ''answer'') \<and>
   map_option (executed \<circ> snd)
     (snd (process_query_for_gradio
             (stub_world (batch_response [lookup_call, terminal_call, select_call]))
             sample_agent (ascii ''sun''))) =
   Some [lookup_call, terminal_call, select_call] \<and>
   map_option (executed \<circ> snd)
     (snd (process_query_with_chat
             (stub_world (batch_response [lookup_call, terminal_call, select_call]))
             sample_agent (ascii ''sun'') None)) =
   Some [lookup_call, terminal_call]"
proof -
  let ?w = "stub_world (batch_response [lookup_call, terminal_call, select_call])"
  let ?q = "ascii ''sun''"
  let ?st0 = "(initial_state sample_agent None)\<lparr>history := [\<lparr>role = User, parts = [Text ?q]\<rparr>]\<rparr>"
  have s: "strip ?q \<noteq> []" "?q \<noteq> []" by (simp_all add: strip_def py_isspace_def)
  have n: "name lookup_call = GET_KNOWLEDGE_LEVEL" "name terminal_call = GENERATE_DETAILED_RESPONSE"
          "name select_call = SELECT_RELEVANT_FILES"
    by (simp_all add: lookup_call_def terminal_call_def select_call_def)
  have fc: "function_calls (batch_response [lookup_call, terminal_call, select_call]) =
              [lookup_call, terminal_call, select_call]"
    by (rule function_calls_batch_response)
  have g: "generate_content ?w h = Inr (batch_response [lookup_call, terminal_call, select_call])" for h
    by (simp add: stub_world_def)
  have sv: "services ?w = calm_services" by (simp add: stub_world_def)
  have ar: "args terminal_call = no_args" by (simp add: terminal_call_def)
  have gen: "fst (generate_response_stream calm_services gs qq None None) = ascii ''answer''"
    for gs qq
    by (simp add: generate_response_stream_def build_request_def request_stream_def
        read_stream_def calm_services_def sample_services_def Let_def)
  have ex: "\<exists>a'. execute_function ?w a terminal_call qq klr sfr =
          (Some (DetailedResponse \<lparr>response = ascii ''answer'', used_knowledge_level = False,
                  used_files = False, response_length = 6\<rparr>), a')" for a klr sfr qq
  proof -
    obtain out gs where o: "generate_response_stream calm_services (response_generator a) qq
        None None = (out, gs)"
      by (cases "generate_response_stream calm_services (response_generator a) qq None None")
    with gen [of "response_generator a" qq] have "out = ascii ''answer''" by simp
    with o show ?thesis
      using tool_names_distinct
      by (cases sfr) (simp_all add: execute_function_def n ar sv no_args_def Let_def)
  qed
  have calls: "\<exists>frs st'. gradio_calls ?w qq [lookup_call, terminal_call, select_call] [] [] st =
                 (frs, ascii ''answer'', st')" for st qq
  proof -
    obtain r1 a1 where e1: "execute_function ?w (the_agent st) lookup_call qq
        (knowledge_level_result st) (selected_files_result st) = (r1, a1)"
      by (cases "execute_function ?w (the_agent st) lookup_call qq
        (knowledge_level_result st) (selected_files_result st)")
    from ex obtain a2 where e2: "execute_function ?w a1 terminal_call qq
        (as_knowledge r1) (selected_files_result st) =
          (Some (DetailedResponse \<lparr>response = ascii ''answer'', used_knowledge_level = False,
                  used_files = False, response_length = 6\<rparr>), a2)" by blast
    obtain r3 a3 where e3: "execute_function ?w a2 select_call qq
        (as_knowledge r1) (selected_files_result st) = (r3, a3)"
      by (cases "execute_function ?w a2 select_call qq
        (as_knowledge r1) (selected_files_result st)")
    show ?thesis
      using tool_names_distinct by (simp add: n e1 e2 e3 Let_def)
  qed
  have t: "\<exists>c \<in> set (function_calls (batch_response [lookup_call, terminal_call, select_call])).
             name c = GENERATE_DETAILED_RESPONSE"
    by (simp add: fc n)
  have m: "(0::nat) < max_iterations" by (simp add: max_iterations_def)
  from gradio_loop_terminal_batch [OF g m t, of ?q "[]" "ascii ''answer''" ?st0] calls
  obtain st' where "gradio_loop ?w ?q 0 [] ?st0 = (Inr (ascii ''answer''), Suc 0, st')"
    and e: "executed st' = executed ?st0 @ [lookup_call, terminal_call, select_call]"
    unfolding fc by blast
  then have 1: "process_query_for_gradio ?w sample_agent ?q =
                  (Inr (ascii ''answer''), Some (1, st'))"
    using s by (simp add: process_query_for_gradio_def)
  have e0: "executed ?st0 = []" by (simp add: initial_state_def)
  from process_query_stops_at_terminal
         [of ?w sample_agent None ?q "batch_response [lookup_call, terminal_call, select_call]"
             "[lookup_call]" terminal_call "[select_call]"]
  obtain d st2 where "process_query ?w sample_agent ?q None =
      (TaskDone (Some (DetailedResponse d)), 1, st2)"
    and "executed st2 = [lookup_call, terminal_call]"
    using tool_names_distinct by (auto simp: g fc n)
  then have 2: "map_option (executed \<circ> snd) (snd (process_query_with_chat ?w sample_agent ?q None)) =
                  Some [lookup_call, terminal_call]"
    using s by (simp add: process_query_with_chat_def)
  from 1 2 e e0 show ?thesis by simp
qed

lemma length_model_turn: "function_calls r \<noteq> [] \<Longrightarrow> length (model_turn r) = 1"
  by (cases "candidates r") (simp_all add: function_calls_def model_turn_def)

lemma director_loop_limit_bounded:
  assumes eng: "\<forall>h. length h < L \<longrightarrow>
                  (\<exists>r. generate_content w h = Inr r \<and> function_calls r \<noteq> [] \<and>
                       (\<forall>fc \<in> set (function_calls r). name fc \<noteq> GENERATE_DETAILED_RESPONSE))"
    and total: "\<forall>h. \<exists>r. generate_content w h = Inr r"
  shows "function_calls r \<noteq> [] \<Longrightarrow>
         \<forall>fc \<in> set (function_calls r). name fc \<noteq> GENERATE_DETAILED_RESPONSE \<Longrightarrow>
         i \<le> max_iterations \<Longrightarrow>
         length (history st) + 2 * (max_iterations - i) < L + 2 \<Longrightarrow>
         \<exists>st'. director_loop w uq i r st = (LimitReached, max_iterations, st') \<and>
               decisions st' = decisions st + (max_iterations - i) \<and>
               length (history st') = length (history st) + 2 * (max_iterations - i)"
proof (induction "max_iterations - i" arbitrary: i r st)
  case 0
  then have "i = max_iterations" by simp
  then show ?case by (subst director_loop.simps) simp
next
  case (Suc n)
  then have lt: "i < max_iterations" and n: "n = max_iterations - Suc i" by simp_all
  from process_calls_nonterminal [OF Suc.prems(2), of w uq "[]" st]
  obtain frs1 st1 where p: "process_calls w uq (function_calls r) [] st = Responses frs1 st1"
    and d1: "decisions st1 = decisions st" and h1: "history st1 = history st" by blast
  let ?h = "history st1 @ model_turn r @ [\<lparr>role = User, parts = frs1\<rparr>]"
  let ?st2 = "st1\<lparr>history := ?h, decisions := decisions st1 + 1\<rparr>"
  have lh: "length ?h = length (history st) + 2"
    using length_model_turn [OF Suc.prems(1)] h1 by simp
  from total obtain r2 where g: "generate_content w ?h = Inr r2" by blast
  have step: "director_loop w uq i r st = director_loop w uq (Suc i) r2 ?st2"
    using lt Suc.prems(1)
    by (subst director_loop.simps) (simp add: p send_def g Let_def)
  show ?case
  proof (cases "Suc i = max_iterations")
    case True
    then have "director_loop w uq (Suc i) r2 ?st2 = (LimitReached, max_iterations, ?st2)"
      by (subst director_loop.simps) simp
    with step have e1: "director_loop w uq i r st = (LimitReached, max_iterations, ?st2)"
      by simp
    from True have m: "max_iterations - i = 1" by linarith
    have e2: "decisions ?st2 = decisions st + (max_iterations - i)"
      using d1 m by simp
    have e3: "length (history ?st2) = length (history st) + 2 * (max_iterations - i)"
      using lh m by simp
    from e1 e2 e3 show ?thesis by blast
  next
    case False
    with lt have lt2: "Suc i < max_iterations" by simp
    with Suc.prems(4) lh have lhL: "length ?h < L" by simp
    from eng [rule_format, OF lhL]
    obtain r' where "generate_content w ?h = Inr r'" and "function_calls r' \<noteq> []"
      and "\<forall>fc \<in> set (function_calls r'). name fc \<noteq> GENERATE_DETAILED_RESPONSE"
      by blast
    with g have r2: "function_calls r2 \<noteq> []"
            "\<forall>fc \<in> set (function_calls r2). name fc \<noteq> GENERATE_DETAILED_RESPONSE"
      by simp_all
    have b: "length (history ?st2) + 2 * (max_iterations - Suc i) < L + 2"
      using Suc.prems(4) lh lt by simp
    from Suc.hyps(1) [OF n r2 _ b] lt
    obtain st' where "director_loop w uq (Suc i) r2 ?st2 = (LimitReached, max_iterations, st')"
      and "decisions st' = decisions ?st2 + (max_iterations - Suc i)"
      and "length (history st') = length (history ?st2) + 2 * (max_iterations - Suc i)"
      by (metis Suc_leI)
    moreover have "decisions ?st2 + (max_iterations - Suc i) =
                     decisions st + (max_iterations - i)"
      using d1 lt by simp
    moreover have "length (history ?st2) + 2 * (max_iterations - Suc i) =
                     length (history st) + 2 * (max_iterations - i)"
      using lh lt by simp
    ultimately show ?thesis using step by (metis (no_types))
  qed
qed

lemma gradio_calls_nonterminal:
  assumes "\<forall>fc \<in> set fcs. name fc \<noteq> GENERATE_DETAILED_RESPONSE"
  shows "\<exists>frs' st'. gradio_calls w uq fcs frs f st = (frs', f, st') \<and>
           decisions st' = decisions st"
  using assms
proof (induction fcs arbitrary: frs st)
  case Nil
  show ?case by simp
next
  case (Cons fc fcs)
  obtain result a where e:
    "execute_function w (the_agent st) fc uq (knowledge_level_result st)
       (selected_files_result st) = (result, a)"
    by (cases "execute_function w (the_agent st) fc uq (knowledge_level_result st)
                 (selected_files_result st)")
  from Cons.prems have nt: "name fc \<noteq> GENERATE_DETAILED_RESPONSE"
    and rest: "\<forall>fc \<in> set fcs. name fc \<noteq> GENERATE_DETAILED_RESPONSE" by simp_all
  let ?st1 = "st\<lparr>the_agent := a, executed := executed st @ [fc]\<rparr>"
  let ?frs1 = "frs @ [FunctionResponse (name fc) result]"
  consider (k) "name fc = GET_KNOWLEDGE_LEVEL"
    | (s) "name fc \<noteq> GET_KNOWLEDGE_LEVEL" "name fc = SELECT_RELEVANT_FILES"
    | (u) "name fc \<noteq> GET_KNOWLEDGE_LEVEL" "name fc \<noteq> SELECT_RELEVANT_FILES"
    by blast
  then show ?case
  proof cases
    case k
    from Cons.IH [OF rest, of ?frs1 "?st1\<lparr>knowledge_level_result := as_knowledge result\<rparr>"]
    show ?thesis using k by (simp add: e Let_def)
  next
    case s
    from Cons.IH [OF rest, of ?frs1 "?st1\<lparr>selected_files_result := as_selection result\<rparr>"]
    show ?thesis using s by (simp add: e Let_def)
  next
    case u
    from Cons.IH [OF rest, of ?frs1 ?st1]
    show ?thesis using u nt by (simp add: e Let_def)
  qed
qed

lemma gradio_loop_limit:
  assumes eng: "\<forall>h. \<exists>r. generate_content w h = Inr r \<and> function_calls r \<noteq> [] \<and>
                  (\<forall>fc \<in> set (function_calls r). name fc \<noteq> GENERATE_DETAILED_RESPONSE)"
  shows "i \<le> max_iterations \<Longrightarrow>
         \<exists>st'. gradio_loop w uq i f st = (Inr f, max_iterations, st') \<and>
               decisions st' = decisions st + (max_iterations - i)"
proof (induction "max_iterations - i" arbitrary: i st)
  case 0
  then have "i = max_iterations" by simp
  then show ?case by (subst gradio_loop.simps) simp
next
  case (Suc n)
  then have lt: "i < max_iterations" and n: "n = max_iterations - Suc i" by simp_all
  let ?st1 = "st\<lparr>history := history st @ [], decisions := decisions st + 1\<rparr>"
  from eng obtain r where g: "generate_content w (history st @ []) = Inr r"
    and r: "function_calls r \<noteq> []"
           "\<forall>fc \<in> set (function_calls r). name fc \<noteq> GENERATE_DETAILED_RESPONSE"
    by blast
  let ?st2 = "?st1\<lparr>history := history ?st1 @ model_turn r\<rparr>"
  from gradio_calls_nonterminal [OF r(2), of w uq "[]" f ?st2]
  obtain frs st3 where c: "gradio_calls w uq (function_calls r) [] f ?st2 = (frs, f, st3)"
    and d3: "decisions st3 = decisions ?st2" by blast
  let ?st4 = "st3\<lparr>history := history st3 @ [\<lparr>role = User, parts = frs\<rparr>]\<rparr>"
  from r(2) have nl: "\<not> list_ex (\<lambda>fc. name fc = GENERATE_DETAILED_RESPONSE) (function_calls r)"
    by (simp add: list_ex_iff)
  have step: "gradio_loop w uq i f st = gradio_loop w uq (Suc i) f ?st4"
    using lt r(1) nl c g
    by (subst gradio_loop.simps) (simp add: send_def Let_def)
  from Suc.hyps(1) [OF n, of ?st4] lt
  obtain st' where "gradio_loop w uq (Suc i) f ?st4 = (Inr f, max_iterations, st')"
    and "decisions st' = decisions ?st4 + (max_iterations - Suc i)"
    by (metis Suc_leI)
  with step d3 lt show ?case by simp
qed

text \<open>
  Claim C2 at two decision engines. Against the engine that gives its final answer as the
  eleventh response, \<open>process_query_with_chat\<close> returns the warning with the counter at
  10 after 11 calls to the engine: at the end of the tenth iteration it does call the engine
  again (app.py line 410, main.py line 549), the \<open>while\<close> is left without a look at the
  response, and that response, the plain text \<open>final\<close>, is lost. Against the engine that
  always asks for the knowledge level it makes 11 calls as well, where
  \<open>process_query_for_gradio\<close>, which calls the engine at the start of each iteration, makes
  10. The claim says that the warning comes instead of a further call.
\<close>

theorem C2_limit_discards_fetched_response:
  "fst (process_query_with_chat late_answer_world sample_agent (ascii ''sun'') None) =
     ITERATION_LIMIT_WARNING \<and>
   map_option fst (snd (process_query_with_chat late_answer_world sample_agent
     (ascii ''sun'') None)) = Some 10 \<and>
   map_option (decisions \<circ> snd) (snd (process_query_with_chat late_answer_world sample_agent
     (ascii ''sun'') None)) = Some 11 \<and>
   map_option (generate_content late_answer_world \<circ> history \<circ> snd)
     (snd (process_query_with_chat late_answer_world sample_agent (ascii ''sun'') None)) =
     Some (Inr (text_response (Some (ascii ''final'')))) \<and>
   map_option (decisions \<circ> snd) (snd (process_query_with_chat
     (stub_world (batch_response [lookup_call])) sample_agent (ascii ''sun'') None)) = Some 11 \<and>
   map_option (decisions \<circ> snd) (snd (process_query_for_gradio
     (stub_world (batch_response [lookup_call])) sample_agent (ascii ''sun''))) = Some 10"
proof -
  let ?w = late_answer_world
  let ?s = "stub_world (batch_response [lookup_call])"
  let ?q = "ascii ''sun''"
  have s: "strip ?q \<noteq> []" "?q \<noteq> []" by (simp_all add: strip_def py_isspace_def)
  have nt: "\<forall>fc \<in> set [lookup_call]. name fc \<noteq> GENERATE_DETAILED_RESPONSE"
    using tool_names_distinct by (simp add: lookup_call_def)
  have fc: "function_calls (batch_response [lookup_call]) = [lookup_call]"
    by (rule function_calls_batch_response)
  have early: "length h < 21 \<Longrightarrow> generate_content ?w h = Inr (batch_response [lookup_call])"
    and late: "\<not> length h < 21 \<Longrightarrow>
                 generate_content ?w h = Inr (text_response (Some (ascii ''final'')))" for h
    by (simp_all add: late_answer_world_def)
  have eng: "\<forall>h. length h < 21 \<longrightarrow>
               (\<exists>r. generate_content ?w h = Inr r \<and> function_calls r \<noteq> [] \<and>
                    (\<forall>fc \<in> set (function_calls r). name fc \<noteq> GENERATE_DETAILED_RESPONSE))"
    using nt by (simp add: early fc)
  have total: "\<forall>h. \<exists>r. generate_content ?w h = Inr r"
    by (simp add: late_answer_world_def)
  let ?st0 = "initial_state sample_agent None"
  let ?h1 = "history ?st0 @ [\<lparr>role = User, parts = [Text ?q]\<rparr>]"
  let ?st1 = "?st0\<lparr>history := ?h1, decisions := decisions ?st0 + 1\<rparr>"
  have l1: "length (history ?st1) = 1" and d1: "decisions ?st1 = 1"
    by (simp_all add: initial_state_def)
  have g1: "generate_content ?w ?h1 = Inr (batch_response [lookup_call])"
    by (rule early) (simp add: initial_state_def)
  have b: "length (history ?st1) + 2 * (max_iterations - 0) < 21 + 2"
    unfolding l1 by (simp add: max_iterations_def)
  from director_loop_limit_bounded [OF eng total, of "batch_response [lookup_call]" 0 ?st1 ?q]
       nt b
  obtain st' where run: "director_loop ?w ?q 0 (batch_response [lookup_call]) ?st1 =
      (LimitReached, max_iterations, st')"
    and d: "decisions st' = decisions ?st1 + (max_iterations - 0)"
    and l: "length (history st') = length (history ?st1) + 2 * (max_iterations - 0)"
    unfolding fc by auto
  have p: "process_query ?w sample_agent ?q None = (LimitReached, max_iterations, st')"
    unfolding process_query_def send_def Let_def g1 using run by simp
  from l l1 have "length (history st') = 21" by (simp add: max_iterations_def)
  then have last: "generate_content ?w (history st') = Inr (text_response (Some (ascii ''final'')))"
    by (simp add: late)
  from d d1 have dec: "decisions st' = 11" by (simp add: max_iterations_def)
  have c: "process_query_with_chat ?w sample_agent ?q None =
             (ITERATION_LIMIT_WARNING, Some (max_iterations, st'))"
    using s p by (simp add: process_query_with_chat_def)
  from process_query_limit [OF stub_world_never_stops [OF _ nt], of sample_agent ?q None]
  obtain st2 where "process_query ?s sample_agent ?q None = (LimitReached, max_iterations, st2)"
    and "decisions st2 = max_iterations + 1" by auto
  then have a: "map_option (decisions \<circ> snd)
                  (snd (process_query_with_chat ?s sample_agent ?q None)) = Some 11"
    using s by (simp add: process_query_with_chat_def max_iterations_def)
  let ?g0 = "?st0\<lparr>history := [\<lparr>role = User, parts = [Text ?q]\<rparr>]\<rparr>"
  from gradio_loop_limit [OF stub_world_never_stops [OF _ nt], of 0 ?q "[]" ?g0]
  obtain st3 where "gradio_loop ?s ?q 0 [] ?g0 = (Inr [], max_iterations, st3)"
    and "decisions st3 = decisions ?g0 + (max_iterations - 0)" by auto
  moreover have "decisions ?g0 = 0" by (simp add: initial_state_def)
  ultimately have g: "map_option (decisions \<circ> snd)
                  (snd (process_query_for_gradio ?s sample_agent ?q)) = Some 10"
    using s by (simp add: process_query_for_gradio_def max_iterations_def)
  from c last dec a g show ?thesis by (simp add: max_iterations_def)
qed

end
